theory Spec2Isabelle
  imports Main
begin

section \<open>The asset lifecycle of planet\_downloader.py\<close>

text \<open>
  A shallow embedding of \<^verbatim>\<open>src/planet_downloader.py\<close>: the retrying status check and
  activation request, the polling loop, the download, the status ledger and the
  orchestration of one scene and of a batch.

  The program talks to a provider over HTTP, sleeps, reads the clock and reads and
  writes files. All of this is explicit state: a \<open>world\<close> holds the provider's answers
  (the \<open>n\<close>-th request of a run receives \<open>net w n\<close>), the clock, the ledger file, the
  other files on disk and a trace of what the program did.
\<close>

subsection \<open>JSON values and the Python operations applied to them\<close>

datatype json =
    JNull
  | JBool bool
  | JNum int
  | JStr string
  | JArr "json list"
  | JObj "(string \<times> json) list"

text \<open>The exceptions the program can raise and does not catch.\<close>

datatype error =
    KeyError
  | TypeError
  | AttributeError
  | JSONDecodeError
  | RequestException
  | Unmodelled

text \<open>
  \<open>Unmodelled\<close> marks the inputs this embedding does not follow: a link or download
  location that is not a JSON string, and a search feature whose \<^verbatim>\<open>id\<close> or \<^verbatim>\<open>item_type\<close>
  is not a string or whose \<^verbatim>\<open>item_type\<close> is missing.
\<close>

text \<open>Python truthiness, as used by \<^verbatim>\<open>if not asset_status\<close>.\<close>

fun truthy :: "json \<Rightarrow> bool" where
  "truthy JNull = False"
| "truthy (JBool b) = b"
| "truthy (JNum n) = (n \<noteq> 0)"
| "truthy (JStr s) = (s \<noteq> [])"
| "truthy (JArr xs) = (xs \<noteq> [])"
| "truthy (JObj fs) = (fs \<noteq> [])"

text \<open>\<^verbatim>\<open>x[key]\<close> with a string key: only a dict accepts it.\<close>

fun subscript :: "json \<Rightarrow> string \<Rightarrow> error + json" where
  "subscript (JObj fs) k = (case map_of fs k of None \<Rightarrow> Inl KeyError | Some v \<Rightarrow> Inr v)"
| "subscript _ k = Inl TypeError"

fun starts_with :: "string \<Rightarrow> string \<Rightarrow> bool" where
  "starts_with [] t = True"
| "starts_with (c # s) [] = False"
| "starts_with (c # s) (d # t) = (c = d \<and> starts_with s t)"

fun substring :: "string \<Rightarrow> string \<Rightarrow> bool" where
  "substring s [] = (s = [])"
| "substring s (d # t) = (starts_with s (d # t) \<or> substring s t)"

text \<open>
  \<^verbatim>\<open>key in x\<close> with a string key: key membership for a dict, element membership for a
  list, substring test for a string, a \<^verbatim>\<open>TypeError\<close> otherwise.
\<close>

fun contains :: "string \<Rightarrow> json \<Rightarrow> error + bool" where
  "contains k (JObj fs) = Inr (map_of fs k \<noteq> None)"
| "contains k (JArr xs) = Inr (JStr k \<in> set xs)"
| "contains k (JStr t) = Inr (substring k t)"
| "contains k _ = Inl TypeError"

text \<open>\<^verbatim>\<open>s.split(c)\<close> for a one-character separator.\<close>

fun str_split :: "char \<Rightarrow> string \<Rightarrow> string list" where
  "str_split c [] = [[]]"
| "str_split c (x # xs) =
     (if x = c then [] # str_split c xs
      else (case str_split c xs of [] \<Rightarrow> [[x]] | p # ps \<Rightarrow> (x # p) # ps))"

text \<open>\<^verbatim>\<open>os.path.join(a, b)\<close> on POSIX.\<close>

definition path_join :: "string \<Rightarrow> string \<Rightarrow> string" where
  "path_join a b =
     (if starts_with ''/'' b then b
      else if a = [] \<or> last a = CHR ''/'' then a @ b
      else a @ ''/'' @ b)"

subsection \<open>The ledger\<close>

text \<open>
  The content of \<^verbatim>\<open>planet_status.json\<close>: activation state (\<^verbatim>\<open>"activating"\<close> or
  \<^verbatim>\<open>"active"\<close>) and download flag per asset key.
\<close>

record ledger =
  activated_scenes :: "string \<rightharpoonup> string"
  downloaded_scenes :: "string \<rightharpoonup> bool"

text \<open>
  The file is absent, or holds a snapshot, or holds something \<^verbatim>\<open>json.load\<close> rejects
  (an empty or partly written file, for instance).
\<close>

datatype ledger_file = Absent | Unparsable | Snapshot ledger

subsection \<open>The world\<close>

text \<open>
  A response: its status code, what \<^verbatim>\<open>response.json()\<close> gives (\<open>None\<close> when the body is
  not JSON), the chunks \<^verbatim>\<open>iter_content\<close> yields, and whether the stream then breaks with
  a transport error instead of ending.
\<close>

record response =
  status_code :: nat
  json_body :: "json option"
  chunks :: "string list"
  stream_breaks :: bool

text \<open>A request raises \<^verbatim>\<open>requests.exceptions.RequestException\<close> or returns a response.\<close>

datatype outcome = Fault | Reply response

text \<open>The call sites of \<^verbatim>\<open>requests.get\<close> and \<^verbatim>\<open>requests.post\<close>.\<close>

datatype req_kind = SearchPost | AssetsGet | StatusGet | ActivatePost | DownloadGet

text \<open>
  The trace: each request with its URL and the status code received (\<open>None\<close> for a
  fault), each sleep, each save of the ledger, and the log lines that open a step.
\<close>

datatype event =
    Request req_kind string "nat option"
  | Sleep nat
  | Saved_status
  | Log_activating string
  | Log_waiting
  | Log_downloading string
  | Log_processing json string
  | Log_no_imagery
  | Log_tally nat nat

text \<open>
  A file on disk other than the ledger: the bytes of a download, or the JSON text of a
  metadata sidecar.
\<close>

datatype disk_file = Bytes string | Json_text json

text \<open>
  Two records are kept beside the trace, for stating what happened: \<open>asked w n\<close> is the
  request that received the provider's \<open>n\<close>-th answer, and \<open>saved\<close> lists the snapshots
  written to the ledger file, oldest first.
\<close>

record world =
  net :: "nat \<Rightarrow> nat \<times> outcome"
  served :: nat
  clock :: nat
  status_file :: ledger_file
  files :: "string \<rightharpoonup> disk_file"
  trace :: "event list"
  asked :: "nat \<rightharpoonup> req_kind \<times> string"
  saved :: "ledger list"

definition code_of :: "outcome \<Rightarrow> nat option" where
  "code_of out = (case out of Fault \<Rightarrow> None | Reply r \<Rightarrow> Some (status_code r))"

text \<open>
  One HTTP request: the provider's next answer, after its latency (in seconds).
\<close>

definition request :: "req_kind \<Rightarrow> string \<Rightarrow> world \<Rightarrow> outcome \<times> world" where
  "request k url w =
     (case net w (served w) of (latency, out) \<Rightarrow>
        (out, w\<lparr>served := served w + 1, clock := clock w + latency,
                trace := trace w @ [Request k url (code_of out)],
                asked := (asked w)(served w \<mapsto> (k, url))\<rparr>))"

text \<open>\<^verbatim>\<open>time.sleep(d)\<close>.\<close>

definition sleep :: "nat \<Rightarrow> world \<Rightarrow> world" where
  "sleep d w = w\<lparr>clock := clock w + d, trace := trace w @ [Sleep d]\<rparr>"

definition log :: "event \<Rightarrow> world \<Rightarrow> world" where
  "log e w = w\<lparr>trace := trace w @ [e]\<rparr>"

subsection \<open>The retrying status check and activation request\<close>

definition max_retries :: nat where
  "max_retries = 3"

text \<open>
  The \<^verbatim>\<open>for attempt in range(max_retries)\<close> loop of \<^verbatim>\<open>get_asset_activation_status\<close>,
  by the number of attempts left: \<open>Suc n\<close> attempts left means
  \<^verbatim>\<open>attempt = max_retries - 1 - n\<close>, so \<^verbatim>\<open>attempt < max_retries - 1\<close> is \<open>0 < n\<close>.
  \<^verbatim>\<open>response.json()\<close> on a body that is not JSON raises the \<^verbatim>\<open>JSONDecodeError\<close> of
  requests (2.27 and later), a \<^verbatim>\<open>RequestException\<close>, which the loop catches.
\<close>

fun get_asset_activation_status_loop ::
  "nat \<Rightarrow> nat \<Rightarrow> string \<Rightarrow> world \<Rightarrow> json option \<times> world" where
  "get_asset_activation_status_loop 0 retry_delay asset_url w = (None, w)"
| "get_asset_activation_status_loop (Suc n) retry_delay asset_url w =
     (case request StatusGet asset_url w of
        (Fault, w1) \<Rightarrow>
          get_asset_activation_status_loop n retry_delay asset_url
            (if 0 < n then sleep retry_delay w1 else w1)
      | (Reply r, w1) \<Rightarrow>
          if status_code r = 200 then
            (case json_body r of
               Some j \<Rightarrow> (Some j, w1)
             | None \<Rightarrow>
                 get_asset_activation_status_loop n retry_delay asset_url
                   (if 0 < n then sleep retry_delay w1 else w1))
          else if status_code r = 429 then
            get_asset_activation_status_loop n (retry_delay * 2) asset_url
              (sleep retry_delay w1)
          else
            get_asset_activation_status_loop n retry_delay asset_url
              (if 0 < n then sleep retry_delay w1 else w1))"

definition get_asset_activation_status :: "string \<Rightarrow> world \<Rightarrow> json option \<times> world" where
  "get_asset_activation_status asset_url w =
     get_asset_activation_status_loop max_retries 2 asset_url w"

fun activate_asset_loop :: "nat \<Rightarrow> nat \<Rightarrow> string \<Rightarrow> world \<Rightarrow> bool \<times> world" where
  "activate_asset_loop 0 retry_delay asset_url w = (False, w)"
| "activate_asset_loop (Suc n) retry_delay asset_url w =
     (case request ActivatePost asset_url w of
        (Fault, w1) \<Rightarrow>
          activate_asset_loop n retry_delay asset_url
            (if 0 < n then sleep retry_delay w1 else w1)
      | (Reply r, w1) \<Rightarrow>
          if status_code r = 202 \<or> status_code r = 204 then (True, w1)
          else if status_code r = 429 then
            activate_asset_loop n (retry_delay * 2) asset_url (sleep retry_delay w1)
          else
            activate_asset_loop n retry_delay asset_url
              (if 0 < n then sleep retry_delay w1 else w1))"

definition activate_asset :: "string \<Rightarrow> world \<Rightarrow> bool \<times> world" where
  "activate_asset asset_url w =
     activate_asset_loop max_retries 2 asset_url (log (Log_activating asset_url) w)"

subsection \<open>Loading and saving the ledger\<close>

definition empty_ledger :: ledger where
  "empty_ledger = \<lparr>activated_scenes = Map.empty, downloaded_scenes = Map.empty\<rparr>"

text \<open>
  \<^verbatim>\<open>load_status\<close>: the default ledger when the file does not exist; \<^verbatim>\<open>json.load\<close>
  raises on a file it cannot parse.
\<close>

definition load_status :: "world \<Rightarrow> error + ledger" where
  "load_status w =
     (case status_file w of
        Absent \<Rightarrow> Inr empty_ledger
      | Unparsable \<Rightarrow> Inl JSONDecodeError
      | Snapshot st \<Rightarrow> Inr st)"

text \<open>
  \<^verbatim>\<open>save_status\<close> does two things to \<^verbatim>\<open>planet_status.json\<close> itself:
  \<^verbatim>\<open>open(status_file, "w")\<close> creates or truncates it, which leaves an empty file, and
  \<^verbatim>\<open>json.dump\<close> then writes the snapshot.
\<close>

definition open_w :: "world \<Rightarrow> world" where
  "open_w w = w\<lparr>status_file := Unparsable\<rparr>"

definition json_dump :: "ledger \<Rightarrow> world \<Rightarrow> world" where
  "json_dump st w = w\<lparr>status_file := Snapshot st, saved := saved w @ [st]\<rparr>"

definition save_status_steps :: "ledger \<Rightarrow> (world \<Rightarrow> world) list" where
  "save_status_steps st = [open_w, json_dump st, log Saved_status]"

definition run_steps :: "(world \<Rightarrow> world) list \<Rightarrow> world \<Rightarrow> world" where
  "run_steps steps w = foldl (\<lambda>w' step. step w') w steps"

definition save_status :: "ledger \<Rightarrow> world \<Rightarrow> world" where
  "save_status st w = run_steps (save_status_steps st) w"

text \<open>The state a crash leaves when only the first \<open>n\<close> steps of a save were done.\<close>

definition save_status_interrupted :: "nat \<Rightarrow> ledger \<Rightarrow> world \<Rightarrow> world" where
  "save_status_interrupted n st w = run_steps (take n (save_status_steps st)) w"

subsection \<open>Polling until active\<close>

definition timeout :: nat where
  "timeout = 300"

definition check_interval :: nat where
  "check_interval = 5"

text \<open>
  The asset key \<^verbatim>\<open>wait_for_asset_activation\<close> derives from the URL:
  \<^verbatim>\<open>url_parts[-4]\<close> and \<^verbatim>\<open>url_parts[-1]\<close> when there are at least 8 parts.
\<close>

definition derived_key :: "string \<Rightarrow> string option" where
  "derived_key asset_url =
     (let url_parts = str_split CHR ''/'' asset_url in
      if 8 \<le> length url_parts then
        Some (url_parts ! (length url_parts - 4) @ ''_'' @ last url_parts)
      else None)"

text \<open>
  What the loop does once the provider reports \<^verbatim>\<open>"active"\<close>: with an asset key, load
  the ledger, and if the key is in \<^verbatim>\<open>activated_scenes\<close> set it to \<^verbatim>\<open>"active"\<close> and save.
\<close>

definition record_active :: "string option \<Rightarrow> world \<Rightarrow> (error + bool) \<times> world" where
  "record_active asset_key w =
     (case asset_key of
        None \<Rightarrow> (Inr True, w)
      | Some k \<Rightarrow>
          (case load_status w of
             Inl e \<Rightarrow> (Inl e, w)
           | Inr status \<Rightarrow>
               if activated_scenes status k \<noteq> None then
                 (Inr True,
                  save_status
                    (status\<lparr>activated_scenes := (activated_scenes status)(k \<mapsto> ''active'')\<rparr>) w)
               else (Inr True, w)))"

text \<open>
  The \<^verbatim>\<open>while time.time() - start_time < timeout\<close> loop, with the default
  \<^verbatim>\<open>timeout=300\<close> and \<^verbatim>\<open>check_interval=5\<close> that every caller uses.
\<close>

function wait_for_asset_activation_loop ::
  "string \<Rightarrow> string option \<Rightarrow> nat \<Rightarrow> world \<Rightarrow> (error + bool) \<times> world" where
  "wait_for_asset_activation_loop asset_url asset_key start_time w =
     (if clock w - start_time < timeout then
        (case get_asset_activation_status asset_url w of
           (None, w1) \<Rightarrow> (Inr False, w1)
         | (Some asset_status, w1) \<Rightarrow>
             if \<not> truthy asset_status then (Inr False, w1)
             else
               (case subscript asset_status ''status'' of
                  Inl e \<Rightarrow> (Inl e, w1)
                | Inr s \<Rightarrow>
                    if s = JStr ''active'' then record_active asset_key w1
                    else
                      wait_for_asset_activation_loop asset_url asset_key start_time
                        (sleep check_interval w1)))
      else (Inr False, w))"
  by pat_completeness auto
termination
proof (relation "measure (\<lambda>(u, k, s, w). s + timeout - clock w)")
  show "wf (measure (\<lambda>(u, k, s, w). s + timeout - clock w))"
    by simp
next
  fix asset_url :: string and asset_key :: "string option" and start_time :: nat
    and w w1 :: world and x :: "json option"
  assume running: "clock w - start_time < timeout"
    and got: "(x, w1) = get_asset_activation_status asset_url w"
  have mono: "clock w0 \<le> clock (snd (get_asset_activation_status_loop n d u w0))"
    for n d u w0
  proof (induction n arbitrary: d w0)
    case 0
    show ?case by simp
  next
    case (Suc n)
    have req: "clock w0 \<le> clock (snd (request StatusGet u w0))"
      by (simp add: request_def split: prod.splits)
    have step: "clock (snd (request StatusGet u w0)) \<le> clock w'
      \<Longrightarrow> clock w0 \<le> clock (snd (get_asset_activation_status_loop n d' u w'))" for w' d'
      using Suc.IH [of w' d'] req by linarith
    show ?case
      using req
      by (auto simp: sleep_def split: prod.splits outcome.splits option.splits intro!: step)
  qed
  have "clock w \<le> clock w1"
    using mono [of w max_retries 2 asset_url] got [symmetric]
    by (simp add: get_asset_activation_status_def)
  with running
  show "((asset_url, asset_key, start_time, sleep check_interval w1),
         asset_url, asset_key, start_time, w)
        \<in> measure (\<lambda>(u, k, s, w). s + timeout - clock w)"
    by (simp add: sleep_def check_interval_def)
qed

definition wait_for_asset_activation :: "string \<Rightarrow> world \<Rightarrow> (error + bool) \<times> world" where
  "wait_for_asset_activation asset_url w =
     (let w0 = log Log_waiting w;
          start_time = clock w0;
          asset_key = derived_key asset_url
      in wait_for_asset_activation_loop asset_url asset_key start_time w0)"

subsection \<open>Downloading\<close>

text \<open>
  \<^verbatim>\<open>open(output_path, "wb")\<close> truncates the destination itself and the chunks are
  written to it as they arrive: whether the stream ends or breaks, the destination then
  holds the chunks received.
\<close>

definition write_chunks :: "string \<Rightarrow> response \<Rightarrow> world \<Rightarrow> world" where
  "write_chunks output_path r w = w\<lparr>files := (files w)(output_path \<mapsto> Bytes (concat (chunks r)))\<rparr>"

text \<open>
  The download loop. A stream that breaks raises a \<^verbatim>\<open>RequestException\<close> inside the
  \<^verbatim>\<open>with\<close> block, which the loop catches as it does a failed request.
\<close>

fun download_asset_loop ::
  "nat \<Rightarrow> nat \<Rightarrow> string \<Rightarrow> string \<Rightarrow> world \<Rightarrow> bool \<times> world" where
  "download_asset_loop 0 retry_delay download_url output_path w = (False, w)"
| "download_asset_loop (Suc n) retry_delay download_url output_path w =
     (case request DownloadGet download_url w of
        (Fault, w1) \<Rightarrow>
          if 0 < n then
            download_asset_loop n (retry_delay * 2) download_url output_path
              (sleep retry_delay w1)
          else download_asset_loop n retry_delay download_url output_path w1
      | (Reply r, w1) \<Rightarrow>
          if status_code r = 200 then
            (let w2 = write_chunks output_path r w1 in
             if \<not> stream_breaks r then (True, w2)
             else if 0 < n then
               download_asset_loop n (retry_delay * 2) download_url output_path
                 (sleep retry_delay w2)
             else download_asset_loop n retry_delay download_url output_path w2)
          else if status_code r = 429 then
            download_asset_loop n (retry_delay * 2) download_url output_path
              (sleep retry_delay w1)
          else if 0 < n then
            download_asset_loop n (retry_delay * 2) download_url output_path
              (sleep retry_delay w1)
          else download_asset_loop n retry_delay download_url output_path w1)"

definition download_asset :: "string \<Rightarrow> string \<Rightarrow> world \<Rightarrow> (error + bool) \<times> world" where
  "download_asset asset_url output_path w =
     (case get_asset_activation_status asset_url (log (Log_downloading output_path) w) of
        (None, w1) \<Rightarrow> (Inr False, w1)
      | (Some status, w1) \<Rightarrow>
          if \<not> truthy status then (Inr False, w1)
          else
            (case subscript status ''status'' of
               Inl e \<Rightarrow> (Inl e, w1)
             | Inr s \<Rightarrow>
                 if s \<noteq> JStr ''active'' then (Inr False, w1)
                 else
                   (case contains ''location'' status of
                      Inl e \<Rightarrow> (Inl e, w1)
                    | Inr has_location \<Rightarrow>
                        if \<not> has_location then (Inr False, w1)
                        else
                          (case subscript status ''location'' of
                             Inl e \<Rightarrow> (Inl e, w1)
                           | Inr (JStr download_url) \<Rightarrow>
                               (case download_asset_loop max_retries 2 download_url
                                       output_path w1 of
                                  (ok, w2) \<Rightarrow> (Inr ok, w2))
                           | Inr _ \<Rightarrow> (Inl Unmodelled, w1)))))"

subsection \<open>One scene and asset type\<close>

text \<open>
  A work item as \<^verbatim>\<open>process_scene\<close> reads it: \<^verbatim>\<open>scene["id"]\<close> and, from
  \<^verbatim>\<open>scene["properties"]\<close>, the fields \<^verbatim>\<open>acquired\<close>, \<^verbatim>\<open>item_type\<close> and
  \<^verbatim>\<open>cloud_cover\<close>, with the whole \<^verbatim>\<open>properties\<close> dict for the sidecar.
\<close>

record scene =
  scene_id :: string
  acquired :: string
  item_type :: string
  cloud_cover :: json
  properties :: "(string \<times> json) list"

definition BASE_URL :: string where
  "BASE_URL = ''https://api.planet.com/data/v1''"

definition SEARCH_URL :: string where
  "SEARCH_URL = BASE_URL @ ''/quick-search''"

text \<open>\<^verbatim>\<open>d.get(key)\<close> on a dict: \<^verbatim>\<open>None\<close> when the key is absent.\<close>

definition dict_get :: "(string \<times> json) list \<Rightarrow> string \<Rightarrow> json" where
  "dict_get fs k = (case map_of fs k of None \<Rightarrow> JNull | Some v \<Rightarrow> v)"

text \<open>
  \<^verbatim>\<open>save_metadata\<close>: the date directory \<^verbatim>\<open>output_dir/YYYY/YYYY-MM-DD\<close> and the sidecar
  written there. \<^verbatim>\<open>s.split(c)[0]\<close> is what precedes the first \<open>c\<close>. The sidecar's text
  is kept as the fields dumped, in order. Errors of the file system are outside this
  embedding: \<^verbatim>\<open>open\<close> is taken to succeed, as it does in the directory that
  \<^verbatim>\<open>os.makedirs\<close> has just created when the scene id contains no slash.
\<close>

definition date_dir_of :: "scene \<Rightarrow> string \<Rightarrow> string" where
  "date_dir_of sc output_dir =
     (let acquired_date = takeWhile (\<lambda>c. c \<noteq> CHR ''T'') (acquired sc);
          year = takeWhile (\<lambda>c. c \<noteq> CHR ''-'') acquired_date;
          year_dir = path_join output_dir year
      in path_join year_dir acquired_date)"

definition metadata_of :: "scene \<Rightarrow> json" where
  "metadata_of sc =
     JObj [(''id'', JStr (scene_id sc)),
           (''acquired'', JStr (acquired sc)),
           (''cloud_cover'', cloud_cover sc),
           (''sun_azimuth'', dict_get (properties sc) ''sun_azimuth''),
           (''sun_elevation'', dict_get (properties sc) ''sun_elevation''),
           (''view_angle'', dict_get (properties sc) ''view_angle''),
           (''satellite_id'', dict_get (properties sc) ''satellite_id''),
           (''ground_control'', dict_get (properties sc) ''ground_control''),
           (''item_type'', dict_get (properties sc) ''item_type''),
           (''quality_category'', dict_get (properties sc) ''quality_category'')]"

definition save_metadata :: "scene \<Rightarrow> string \<Rightarrow> world \<Rightarrow> string \<times> world" where
  "save_metadata sc output_dir w =
     (let date_dir = date_dir_of sc output_dir;
          metadata_file = path_join date_dir (scene_id sc @ ''_metadata.json'')
      in (date_dir, w\<lparr>files := (files w)(metadata_file \<mapsto> Json_text (metadata_of sc))\<rparr>))"

text \<open>
  Lines 432 to 448 of \<^verbatim>\<open>process_scene\<close>: the activation link and the self link of
  the asset type in the assets listing; \<open>None\<close> where the code returns \<^verbatim>\<open>False\<close>.
\<close>

definition resolve_links :: "json \<Rightarrow> string \<Rightarrow> error + (string \<times> string) option" where
  "resolve_links assets asset_type =
     (case contains asset_type assets of
        Inl e \<Rightarrow> Inl e
      | Inr listed \<Rightarrow>
          if \<not> listed then Inr None
          else
            (case subscript assets asset_type of
               Inl e \<Rightarrow> Inl e
             | Inr asset_data \<Rightarrow>
                 (case contains ''_links'' asset_data of
                    Inl e \<Rightarrow> Inl e
                  | Inr has_links \<Rightarrow>
                      if \<not> has_links then Inr None
                      else
                        (case subscript asset_data ''_links'' of
                           Inl e \<Rightarrow> Inl e
                         | Inr links \<Rightarrow>
                             (case contains ''activate'' links of
                                Inl e \<Rightarrow> Inl e
                              | Inr has_activate \<Rightarrow>
                                  if \<not> has_activate then Inr None
                                  else
                                    (case contains ''_self'' links of
                                       Inl e \<Rightarrow> Inl e
                                     | Inr has_self \<Rightarrow>
                                         if \<not> has_self then Inr None
                                         else
                                           (case subscript links ''activate'' of
                                              Inl e \<Rightarrow> Inl e
                                            | Inr activation_link \<Rightarrow>
                                                (case subscript links ''_self'' of
                                                   Inl e \<Rightarrow> Inl e
                                                 | Inr self_link \<Rightarrow>
                                                     (case (activation_link, self_link) of
                                                        (JStr a, JStr s) \<Rightarrow> Inr (Some (a, s))
                                                      | _ \<Rightarrow> Inl Unmodelled)))))))))"

definition asset_key_of :: "scene \<Rightarrow> string \<Rightarrow> string" where
  "asset_key_of sc asset_type = scene_id sc @ ''_'' @ asset_type"

definition raw_tif_path_of :: "scene \<Rightarrow> string \<Rightarrow> string \<Rightarrow> string" where
  "raw_tif_path_of sc asset_type output_dir =
     path_join (date_dir_of sc output_dir) (scene_id sc @ ''_'' @ asset_type @ ''.tif'')"

text \<open>
  Lines 455 to 473: activation and polling. The result is \<open>None\<close> where the code
  returns \<^verbatim>\<open>False\<close>, and otherwise the ledger \<^verbatim>\<open>process_scene\<close> holds in memory.
\<close>

definition activation_step ::
  "ledger \<Rightarrow> string \<Rightarrow> string \<Rightarrow> string \<Rightarrow> bool \<Rightarrow> world \<Rightarrow> (error + ledger option) \<times> world"
  where
  "activation_step status asset_key activation_link self_link activate_only w =
     (if activated_scenes status asset_key \<noteq> None then
        (if \<not> activate_only then
           (case wait_for_asset_activation self_link w of
              (Inl e, w1) \<Rightarrow> (Inl e, w1)
            | (Inr ok, w1) \<Rightarrow> if \<not> ok then (Inr None, w1) else (Inr (Some status), w1))
         else (Inr (Some status), w))
      else
        (case activate_asset activation_link w of
           (ok, w1) \<Rightarrow>
             if ok then
               (let status' = status\<lparr>activated_scenes :=
                                (activated_scenes status)(asset_key \<mapsto> ''activating'')\<rparr>;
                    w2 = save_status status' w1
                in if \<not> activate_only then
                     (case wait_for_asset_activation self_link w2 of
                        (Inl e, w3) \<Rightarrow> (Inl e, w3)
                      | (Inr ok', w3) \<Rightarrow>
                          if \<not> ok' then (Inr None, w3) else (Inr (Some status'), w3))
                   else (Inr (Some status'), w2))
             else (Inr None, w1)))"

text \<open>Lines 479 to 489: the download, unless ledger and disk both have it.\<close>

definition download_step ::
  "ledger \<Rightarrow> string \<Rightarrow> string \<Rightarrow> string \<Rightarrow> world \<Rightarrow> (error + bool) \<times> world" where
  "download_step status asset_key self_link raw_tif_path w =
     (if downloaded_scenes status asset_key \<noteq> None \<and> files w raw_tif_path \<noteq> None then
        (Inr True, w)
      else
        (case download_asset self_link raw_tif_path w of
           (Inl e, w1) \<Rightarrow> (Inl e, w1)
         | (Inr ok, w1) \<Rightarrow>
             if ok then
               (Inr True,
                save_status
                  (status\<lparr>downloaded_scenes := (downloaded_scenes status)(asset_key \<mapsto> True)\<rparr>)
                  w1)
             else (Inr False, w1)))"

definition assets_url_of :: "scene \<Rightarrow> string" where
  "assets_url_of sc =
     BASE_URL @ ''/item-types/'' @ item_type sc @ ''/items/'' @ scene_id sc @ ''/assets''"

definition process_scene ::
  "scene \<Rightarrow> string \<Rightarrow> string \<Rightarrow> bool \<Rightarrow> world \<Rightarrow> (error + bool) \<times> world" where
  "process_scene sc asset_type output_dir activate_only w =
     (case save_metadata sc output_dir w of
        (date_dir, w1) \<Rightarrow>
          (case load_status w1 of
             Inl e \<Rightarrow> (Inl e, w1)
           | Inr status \<Rightarrow>
               (case request AssetsGet (assets_url_of sc) w1 of
                  (Fault, w2) \<Rightarrow> (Inl RequestException, w2)
                | (Reply r, w2) \<Rightarrow>
                    if status_code r \<noteq> 200 then (Inr False, w2)
                    else
                      (case json_body r of
                         None \<Rightarrow> (Inl JSONDecodeError, w2)
                       | Some assets \<Rightarrow>
                           (case resolve_links assets asset_type of
                              Inl e \<Rightarrow> (Inl e, w2)
                            | Inr None \<Rightarrow> (Inr False, w2)
                            | Inr (Some (activation_link, self_link)) \<Rightarrow>
                                (case activation_step status (asset_key_of sc asset_type)
                                        activation_link self_link activate_only w2 of
                                   (Inl e, w3) \<Rightarrow> (Inl e, w3)
                                 | (Inr None, w3) \<Rightarrow> (Inr False, w3)
                                 | (Inr (Some status'), w3) \<Rightarrow>
                                     if activate_only then (Inr True, w3)
                                     else
                                       download_step status' (asset_key_of sc asset_type)
                                         self_link
                                         (path_join date_dir
                                            (scene_id sc @ ''_'' @ asset_type @ ''.tif''))
                                         w3))))))"

subsection \<open>The batch\<close>

text \<open>
  \<^verbatim>\<open>search_planet_imagery\<close>: \<open>None\<close> on a status other than 200, and otherwise
  \<^verbatim>\<open>search_result.get("features", [])\<close>, whose \<^verbatim>\<open>len\<close> the log line takes.
\<close>

definition search_planet_imagery :: "world \<Rightarrow> (error + json option) \<times> world" where
  "search_planet_imagery w =
     (case request SearchPost SEARCH_URL w of
        (Fault, w1) \<Rightarrow> (Inl RequestException, w1)
      | (Reply r, w1) \<Rightarrow>
          if status_code r \<noteq> 200 then (Inr None, w1)
          else
            (case json_body r of
               None \<Rightarrow> (Inl JSONDecodeError, w1)
             | Some (JObj fs) \<Rightarrow>
                 (case map_of fs ''features'' of
                    None \<Rightarrow> (Inr (Some (JArr [])), w1)
                  | Some JNull \<Rightarrow> (Inl TypeError, w1)
                  | Some (JBool b) \<Rightarrow> (Inl TypeError, w1)
                  | Some (JNum n) \<Rightarrow> (Inl TypeError, w1)
                  | Some features \<Rightarrow> (Inr (Some features), w1))
             | Some _ \<Rightarrow> (Inl AttributeError, w1)))"

text \<open>
  A feature of the search result read as a work item, with the exception Python raises
  for a missing or ill-typed \<^verbatim>\<open>properties\<close>, \<^verbatim>\<open>acquired\<close> or \<^verbatim>\<open>cloud_cover\<close>, all raised
  before \<^verbatim>\<open>process_scene\<close> has any effect. An \<^verbatim>\<open>id\<close> or \<^verbatim>\<open>item_type\<close> that is not a
  string, or no \<^verbatim>\<open>item_type\<close>, is not followed.
\<close>

definition scene_of :: "json \<Rightarrow> error + scene" where
  "scene_of feature =
     (case subscript feature ''id'' of
        Inl e \<Rightarrow> Inl e
      | Inr sid \<Rightarrow>
          (case subscript feature ''properties'' of
             Inl e \<Rightarrow> Inl e
           | Inr props \<Rightarrow>
               (case subscript props ''acquired'' of
                  Inl e \<Rightarrow> Inl e
                | Inr (JStr acq) \<Rightarrow>
                    (case (sid, props) of
                       (JStr i, JObj fs) \<Rightarrow>
                         (case subscript props ''cloud_cover'' of
                            Inl e \<Rightarrow> Inl e
                          | Inr cc \<Rightarrow>
                              (case map_of fs ''item_type'' of
                                 Some (JStr t) \<Rightarrow>
                                   Inr \<lparr>scene_id = i, acquired = acq, item_type = t,
                                        cloud_cover = cc, properties = fs\<rparr>
                               | _ \<Rightarrow> Inl Unmodelled))
                     | _ \<Rightarrow> Inl Unmodelled)
                | Inr _ \<Rightarrow> Inl AttributeError)))"

text \<open>
  The parsed arguments that \<^verbatim>\<open>main\<close> passes on; \<open>arg_output_dir\<close> stands for
  \<^verbatim>\<open>str(output_dir)\<close>, the path as \<^verbatim>\<open>Path\<close> has normalised it.
\<close>

record args =
  arg_asset_types :: "string list"
  arg_output_dir :: string
  arg_activate_only :: bool

text \<open>The inner loop of \<^verbatim>\<open>main\<close>, counting the successful assets.\<close>

fun process_asset_types ::
  "args \<Rightarrow> json \<Rightarrow> json \<Rightarrow> string list \<Rightarrow> nat \<Rightarrow> world \<Rightarrow> (error + nat) \<times> world" where
  "process_asset_types a feature sid [] successful_assets w = (Inr successful_assets, w)"
| "process_asset_types a feature sid (asset_type # rest) successful_assets w =
     (let w0 = log (Log_processing sid asset_type) w in
      case scene_of feature of
        Inl e \<Rightarrow> (Inl e, w0)
      | Inr sc \<Rightarrow>
          (case process_scene sc asset_type (arg_output_dir a) (arg_activate_only a) w0 of
             (Inl e, w1) \<Rightarrow> (Inl e, w1)
           | (Inr ok, w1) \<Rightarrow>
               process_asset_types a feature sid rest
                 (if ok then successful_assets + 1 else successful_assets) w1))"

text \<open>The outer loop; \<^verbatim>\<open>scene['id']\<close> is evaluated for the log line.\<close>

fun process_features ::
  "args \<Rightarrow> json list \<Rightarrow> nat \<Rightarrow> world \<Rightarrow> (error + nat) \<times> world" where
  "process_features a [] successful_assets w = (Inr successful_assets, w)"
| "process_features a (feature # rest) successful_assets w =
     (case subscript feature ''id'' of
        Inl e \<Rightarrow> (Inl e, w)
      | Inr sid \<Rightarrow>
          (case process_asset_types a feature sid (arg_asset_types a) successful_assets w of
             (Inl e, w1) \<Rightarrow> (Inl e, w1)
           | (Inr n, w1) \<Rightarrow> process_features a rest n w1))"

text \<open>\<^verbatim>\<open>display_status_summary\<close> loads the ledger and logs it.\<close>

definition display_status_summary :: "world \<Rightarrow> error + unit" where
  "display_status_summary w =
     (case load_status w of Inl e \<Rightarrow> Inl e | Inr status \<Rightarrow> Inr ())"

text \<open>
  \<^verbatim>\<open>main\<close>, after the arguments are parsed. Features that are a non-empty string or
  dict iterate over strings, and \<^verbatim>\<open>scene['id']\<close> on a string is a \<^verbatim>\<open>TypeError\<close>.
\<close>

definition main :: "args \<Rightarrow> world \<Rightarrow> (error + unit) \<times> world" where
  "main a w =
     (case display_status_summary w of
        Inl e \<Rightarrow> (Inl e, w)
      | Inr _ \<Rightarrow>
          (case search_planet_imagery w of
             (Inl e, w1) \<Rightarrow> (Inl e, w1)
           | (Inr None, w1) \<Rightarrow> (Inr (), log Log_no_imagery w1)
           | (Inr (Some features), w1) \<Rightarrow>
               if \<not> truthy features then (Inr (), log Log_no_imagery w1)
               else
                 (case features of
                    JArr scenes \<Rightarrow>
                      (case process_features a scenes 0 w1 of
                         (Inl e, w2) \<Rightarrow> (Inl e, w2)
                       | (Inr successful_assets, w2) \<Rightarrow>
                           (let w3 = log (Log_tally successful_assets
                                        (length scenes * length (arg_asset_types a))) w2
                            in case display_status_summary w3 of
                                 Inl e \<Rightarrow> (Inl e, w3)
                               | Inr _ \<Rightarrow> (Inr (), w3)))
                  | _ \<Rightarrow> (Inl TypeError, w1))))"

subsection \<open>Providers and worlds for concrete runs\<close>

definition json_reply :: "nat \<Rightarrow> json \<Rightarrow> outcome" where
  "json_reply code j =
     Reply \<lparr>status_code = code, json_body = Some j, chunks = [], stream_breaks = False\<rparr>"

text \<open>A provider that answers from a list, at once, and then only fails.\<close>

definition scripted :: "outcome list \<Rightarrow> nat \<Rightarrow> nat \<times> outcome" where
  "scripted outs n = (0, if n < length outs then outs ! n else Fault)"

definition fresh_world :: "(nat \<Rightarrow> nat \<times> outcome) \<Rightarrow> world" where
  "fresh_world provider =
     \<lparr>net = provider, served = 0, clock = 0, status_file = Absent, files = Map.empty,
      trace = [], asked = Map.empty, saved = []\<rparr>"

text \<open>Every request is answered with status 429.\<close>

definition always_429 :: "world \<Rightarrow> bool" where
  "always_429 w = (\<forall>n. \<exists>latency r. net w n = (latency, Reply r) \<and> status_code r = 429)"

subsection \<open>Classes of trace events\<close>

text \<open>What a status check, an activation request and the polling loop put on the trace.\<close>

fun status_event :: "event \<Rightarrow> bool" where
  "status_event (Request StatusGet u c) = True"
| "status_event (Sleep d) = True"
| "status_event _ = False"

fun activate_event :: "event \<Rightarrow> bool" where
  "activate_event (Request ActivatePost u c) = True"
| "activate_event (Sleep d) = True"
| "activate_event (Log_activating u) = True"
| "activate_event _ = False"

fun wait_event :: "event \<Rightarrow> bool" where
  "wait_event (Request StatusGet u c) = True"
| "wait_event (Sleep d) = True"
| "wait_event Log_waiting = True"
| "wait_event Saved_status = True"
| "wait_event _ = False"

text \<open>An activation POST, and one the provider accepted (202 or 204).\<close>

fun activation_post :: "event \<Rightarrow> bool" where
  "activation_post (Request ActivatePost u c) = True"
| "activation_post _ = False"

fun accepted_post :: "event \<Rightarrow> bool" where
  "accepted_post (Request ActivatePost u (Some c)) = (c = 202 \<or> c = 204)"
| "accepted_post _ = False"

text \<open>
  The ledger file after \<^verbatim>\<open>wait_for_asset_activation\<close> has recorded the derived key as
  active: changed only when the file holds a snapshot with that key in
  \<^verbatim>\<open>activated_scenes\<close>.
\<close>

definition recorded :: "string option \<Rightarrow> ledger_file \<Rightarrow> ledger_file" where
  "recorded asset_key f =
     (case (asset_key, f) of
        (Some k, Snapshot st) \<Rightarrow>
          if activated_scenes st k \<noteq> None then
            Snapshot (st\<lparr>activated_scenes := (activated_scenes st)(k \<mapsto> ''active'')\<rparr>)
          else f
      | _ \<Rightarrow> f)"

text \<open>What \<^verbatim>\<open>download_asset\<close> puts on the trace.\<close>

fun download_event :: "event \<Rightarrow> bool" where
  "download_event (Request StatusGet u c) = True"
| "download_event (Request DownloadGet u c) = True"
| "download_event (Sleep d) = True"
| "download_event (Log_downloading p) = True"
| "download_event _ = False"

text \<open>
  Between two states, a download request to this URL was answered 200 with a stream
  that did not break, and the path now holds the whole body of that response.
\<close>

definition delivered :: "world \<Rightarrow> world \<Rightarrow> string \<Rightarrow> string \<Rightarrow> bool" where
  "delivered w w' url p \<longleftrightarrow>
     (\<exists>i latency r. served w \<le> i \<and> i < served w' \<and> asked w' i = Some (DownloadGet, url)
        \<and> net w i = (latency, Reply r) \<and> status_code r = 200 \<and> \<not> stream_breaks r
        \<and> files w' p = Some (Bytes (concat (chunks r))))"

text \<open>Between two states, a status check of this link was answered 200 with this JSON body.\<close>

definition answered :: "world \<Rightarrow> world \<Rightarrow> string \<Rightarrow> json \<Rightarrow> bool" where
  "answered w w' link j \<longleftrightarrow>
     (\<exists>i latency r. served w \<le> i \<and> i < served w' \<and> asked w' i = Some (StatusGet, link)
        \<and> net w i = (latency, Reply r) \<and> status_code r = 200 \<and> json_body r = Some j)"

text \<open>
  Between two states, the provider answered a status check with the status
  \<^verbatim>\<open>"active"\<close> and this download location.
\<close>

definition reported_active :: "world \<Rightarrow> world \<Rightarrow> string \<Rightarrow> bool" where
  "reported_active w w' url \<longleftrightarrow>
     (\<exists>link j. answered w w' link j \<and> subscript j ''status'' = Inr (JStr ''active'')
        \<and> subscript j ''location'' = Inr (JStr url))"

text \<open>The status the provider reports for an asset that is ready.\<close>

definition active_status :: json where
  "active_status = JObj [(''status'', JStr ''active''), (''location'', JStr ''https://dl/S1'')]"

text \<open>A ledger that holds \<^verbatim>\<open>S1_x\<close> as requested, and a provider that reports it active.\<close>

definition requested_ledger :: ledger where
  "requested_ledger =
     \<lparr>activated_scenes = [''S1_x'' \<mapsto> ''activating''], downloaded_scenes = Map.empty\<rparr>"

definition active_world :: world where
  "active_world =
     (fresh_world (scripted [json_reply 200 active_status]))
       \<lparr>status_file := Snapshot requested_ledger\<rparr>"

text \<open>A provider that reports the asset as not yet active.\<close>

definition pending_world :: world where
  "pending_world =
     fresh_world (scripted [json_reply 200 (JObj [(''status'', JStr ''activating'')])])"

text \<open>
  Providers that answer the status check with a body that has no \<^verbatim>\<open>status\<close>, and with
  a body that is a list.
\<close>

definition no_status_world :: world where
  "no_status_world =
     fresh_world (scripted [json_reply 200 (JObj [(''state'', JStr ''activating'')])])"

definition list_status_world :: world where
  "list_status_world = fresh_world (scripted [json_reply 200 (JArr [JStr ''activating''])])"

text \<open>The ledger file holds a snapshot with the key activated, or downloaded.\<close>

definition has_activated :: "string \<Rightarrow> ledger_file \<Rightarrow> bool" where
  "has_activated k f = (case f of Snapshot st \<Rightarrow> activated_scenes st k \<noteq> None | _ \<Rightarrow> False)"

definition has_downloaded :: "string \<Rightarrow> ledger_file \<Rightarrow> bool" where
  "has_downloaded k f = (case f of Snapshot st \<Rightarrow> downloaded_scenes st k \<noteq> None | _ \<Rightarrow> False)"

text \<open>The events only \<^verbatim>\<open>download_asset\<close> produces.\<close>

fun download_mark :: "event \<Rightarrow> bool" where
  "download_mark (Request DownloadGet u c) = True"
| "download_mark (Log_downloading p) = True"
| "download_mark _ = False"

text \<open>The events \<^verbatim>\<open>process_scene\<close> can produce.\<close>

fun scene_event :: "event \<Rightarrow> bool" where
  "scene_event (Request SearchPost u c) = False"
| "scene_event (Log_processing sid t) = False"
| "scene_event Log_no_imagery = False"
| "scene_event (Log_tally n m) = False"
| "scene_event _ = True"

text \<open>
  The ledger \<^verbatim>\<open>process_scene\<close> holds after its activation request was accepted, and
  after its download succeeded.
\<close>

definition requested :: "ledger \<Rightarrow> string \<Rightarrow> ledger" where
  "requested st k = st\<lparr>activated_scenes := (activated_scenes st)(k \<mapsto> ''activating'')\<rparr>"

definition flagged :: "ledger \<Rightarrow> string \<Rightarrow> ledger" where
  "flagged st k = st\<lparr>downloaded_scenes := (downloaded_scenes st)(k \<mapsto> True)\<rparr>"

text \<open>
  A scene, an assets listing that offers asset type \<^verbatim>\<open>x\<close> for it, and two self links:
  one of 7 parts, from which no key is derived, and one from which \<^verbatim>\<open>S1_x\<close> is derived.
\<close>

definition s1 :: scene where
  "s1 = \<lparr>scene_id = ''S1'', acquired = ''2024-01-02T03:04:05Z'', item_type = ''PSScene'',
         cloud_cover = JNum 0,
         properties = [(''acquired'', JStr ''2024-01-02T03:04:05Z''), (''cloud_cover'', JNum 0),
                       (''item_type'', JStr ''PSScene'')]\<rparr>"

definition listing :: "string \<Rightarrow> outcome" where
  "listing self_link =
     json_reply 200
       (JObj [(''x'', JObj [(''status'', JStr ''inactive''),
                            (''_links'', JObj [(''activate'', JStr ''https://act''),
                                               (''_self'', JStr self_link)])])])"

definition token_link :: string where
  "token_link = ''https://api.planet.com/data/v1/assets/abc''"

definition keyed_link :: string where
  "keyed_link = ''https://api.example/a/b/S1/c/d/x''"

text \<open>
  The first activation POST is answered 500 and the second 202; a second run then finds
  the listing again.
\<close>

definition retry_world :: world where
  "retry_world =
     fresh_world (scripted [listing token_link, json_reply 500 JNull, json_reply 202 JNull,
                            listing token_link])"

text \<open>A 200 response that streams the given chunks and then ends, or breaks.\<close>

definition body :: "string list \<Rightarrow> bool \<Rightarrow> outcome" where
  "body cs broken =
     Reply \<lparr>status_code = 200, json_body = None, chunks = cs, stream_breaks = broken\<rparr>"

text \<open>A run that goes through: activation, one poll, the download in two chunks.\<close>

definition good_world :: world where
  "good_world =
     fresh_world (scripted [listing token_link, json_reply 202 JNull, json_reply 200 active_status,
                            json_reply 200 active_status, body [''ab'', ''cd''] False])"

text \<open>The download stream breaks after its first chunk, and every retry fails.\<close>

definition broken_world :: world where
  "broken_world =
     fresh_world (scripted [listing token_link, json_reply 202 JNull, json_reply 200 active_status,
                            json_reply 200 active_status, body [''ab''] True])"

text \<open>
  The ledger holds \<^verbatim>\<open>S1_x\<close> as requested, the self link yields that key, and the run goes
  through.
\<close>

definition regress_world :: world where
  "regress_world =
     (fresh_world (scripted [listing keyed_link, json_reply 200 active_status,
                            json_reply 200 active_status, body [''ab'', ''cd''] False]))
       \<lparr>status_file := Snapshot requested_ledger\<rparr>"

text \<open>The entry of a key in \<^verbatim>\<open>activated_scenes\<close> of the ledger file.\<close>

definition activation_on_file :: "string \<Rightarrow> world \<Rightarrow> string option" where
  "activation_on_file k w =
     (case status_file w of Snapshot st \<Rightarrow> activated_scenes st k | _ \<Rightarrow> None)"

text \<open>
  \<^verbatim>\<open>S1_x\<close> is active and downloaded in the ledger, and its destination file is on disk.
\<close>

definition done_ledger :: ledger where
  "done_ledger =
     \<lparr>activated_scenes = [''S1_x'' \<mapsto> ''active''], downloaded_scenes = [''S1_x'' \<mapsto> True]\<rparr>"

definition done_world :: world where
  "done_world =
     (fresh_world (scripted [listing token_link, json_reply 200 active_status]))
       \<lparr>status_file := Snapshot done_ledger,
        files := [''out/2024/2024-01-02/S1_x.tif'' \<mapsto> Bytes ''abcd'']\<rparr>"

text \<open>The log line that opens a work item, and the final tally.\<close>

fun processing_mark :: "event \<Rightarrow> bool" where
  "processing_mark (Log_processing sid t) = True"
| "processing_mark _ = False"

fun tally_mark :: "event \<Rightarrow> bool" where
  "tally_mark (Log_tally n m) = True"
| "tally_mark _ = False"

text \<open>
  The scene \<^verbatim>\<open>S1\<close> as a feature of a search result, and a batch of two asset types that
  are to be activated and downloaded.
\<close>

definition feature1 :: json where
  "feature1 =
     JObj [(''id'', JStr ''S1''),
           (''properties'',
            JObj [(''acquired'', JStr ''2024-01-02T03:04:05Z''), (''cloud_cover'', JNum 0),
                  (''item_type'', JStr ''PSScene'')])]"

definition search_reply :: "json list \<Rightarrow> outcome" where
  "search_reply features = json_reply 200 (JObj [(''features'', JArr features)])"

definition malformed_args :: args where
  "malformed_args = \<lparr>arg_asset_types = [''x'', ''y''], arg_output_dir = ''out'',
                      arg_activate_only = False\<rparr>"

text \<open>
  One scene is found and the first asset type is activated; its first poll is answered
  200 with a body that has no \<^verbatim>\<open>status\<close>.
\<close>

definition malformed_world :: world where
  "malformed_world =
     fresh_world (scripted [search_reply [feature1], listing token_link, json_reply 202 JNull,
                            json_reply 200 (JObj [(''state'', JStr ''active'')])])"

text \<open>One scene is found, and the request for its assets listing fails in transport.\<close>

definition listing_fault_world :: world where
  "listing_fault_world = fresh_world (scripted [search_reply [feature1], Fault])"

text \<open>A status check request, as polling makes them.\<close>

fun status_request :: "event \<Rightarrow> bool" where
  "status_request (Request StatusGet u c) = True"
| "status_request _ = False"

section \<open>What each step leaves unchanged\<close>

lemma request_frame:
  "request k u w = (out, w1) \<Longrightarrow>
     net w1 = net w \<and> status_file w1 = status_file w \<and> files w1 = files w
     \<and> trace w1 = trace w @ [Request k u (code_of out)]
     \<and> served w1 = Suc (served w) \<and> clock w \<le> clock w1 \<and> out = snd (net w (served w))
     \<and> asked w1 = (asked w)(served w \<mapsto> (k, u)) \<and> saved w1 = saved w"
  by (auto simp: request_def split: prod.splits)

lemma sleep_frame [simp]:
  "net (sleep d w) = net w" "status_file (sleep d w) = status_file w"
  "files (sleep d w) = files w" "trace (sleep d w) = trace w @ [Sleep d]"
  "served (sleep d w) = served w" "clock (sleep d w) = clock w + d"
  "asked (sleep d w) = asked w" "saved (sleep d w) = saved w"
  by (simp_all add: sleep_def)

lemma log_frame [simp]:
  "net (log e w) = net w" "status_file (log e w) = status_file w"
  "files (log e w) = files w" "trace (log e w) = trace w @ [e]"
  "served (log e w) = served w" "clock (log e w) = clock w"
  "asked (log e w) = asked w" "saved (log e w) = saved w"
  by (simp_all add: log_def)

lemma status_loop_frame:
  "get_asset_activation_status_loop n d u w = (r, w') \<Longrightarrow>
     net w' = net w \<and> status_file w' = status_file w \<and> files w' = files w
     \<and> served w \<le> served w' \<and> clock w \<le> clock w'
     \<and> (\<exists>new. trace w' = trace w @ new \<and> (\<forall>e\<in>set new. status_event e))"
proof (induction n arbitrary: d w)
  case 0
  then show ?case by simp
next
  case (Suc n)
  show ?case
    using Suc.prems
    by (auto simp: request_def split: prod.splits outcome.splits if_splits option.splits
        dest!: Suc.IH)
qed

lemma status_frame:
  "get_asset_activation_status u w = (r, w') \<Longrightarrow>
     net w' = net w \<and> status_file w' = status_file w \<and> files w' = files w
     \<and> served w \<le> served w' \<and> clock w \<le> clock w'
     \<and> (\<exists>new. trace w' = trace w @ new \<and> (\<forall>e\<in>set new. status_event e))"
  unfolding get_asset_activation_status_def by (rule status_loop_frame)

lemma activate_loop_frame:
  "activate_asset_loop n d u w = (ok, w') \<Longrightarrow>
     net w' = net w \<and> status_file w' = status_file w \<and> files w' = files w
     \<and> served w \<le> served w'
     \<and> (\<exists>new. trace w' = trace w @ new \<and> (\<forall>e\<in>set new. activate_event e)
          \<and> length (filter accepted_post new) = (if ok then 1 else 0))"
proof (induction n arbitrary: d w)
  case 0
  then show ?case by simp
next
  case (Suc n)
  show ?case
    using Suc.prems
    by (auto simp: request_def code_of_def split: prod.splits outcome.splits if_splits
        dest!: Suc.IH)
qed

lemma activate_frame:
  "activate_asset u w = (ok, w') \<Longrightarrow>
     net w' = net w \<and> status_file w' = status_file w \<and> files w' = files w
     \<and> served w \<le> served w'
     \<and> (\<exists>new. trace w' = trace w @ new \<and> (\<forall>e\<in>set new. activate_event e)
          \<and> length (filter accepted_post new) = (if ok then 1 else 0))"
  unfolding activate_asset_def
  by (drule activate_loop_frame) auto

lemma save_status_frame [simp]:
  "net (save_status st w) = net w" "status_file (save_status st w) = Snapshot st"
  "files (save_status st w) = files w" "trace (save_status st w) = trace w @ [Saved_status]"
  "served (save_status st w) = served w" "clock (save_status st w) = clock w"
  "asked (save_status st w) = asked w" "saved (save_status st w) = saved w @ [st]"
  by (simp_all add: save_status_def save_status_steps_def run_steps_def open_w_def json_dump_def)

lemma status_event_wait: "status_event e \<Longrightarrow> wait_event e"
  by (cases e rule: status_event.cases) auto

lemma record_active_frame:
  "record_active k w = (r, w') \<Longrightarrow>
     net w' = net w \<and> files w' = files w \<and> served w' = served w
     \<and> status_file w' = (if r = Inr True then recorded k (status_file w) else status_file w)
     \<and> (\<exists>new. trace w' = trace w @ new \<and> (\<forall>e\<in>set new. wait_event e))"
  by (auto simp: record_active_def load_status_def recorded_def empty_ledger_def
      split: option.splits sum.splits ledger_file.splits if_splits)

lemma wait_loop_frame:
  "wait_for_asset_activation_loop u k s w = (r, w') \<Longrightarrow>
     net w' = net w \<and> files w' = files w \<and> served w \<le> served w'
     \<and> status_file w' = (if r = Inr True then recorded k (status_file w) else status_file w)
     \<and> (\<exists>new. trace w' = trace w @ new \<and> (\<forall>e\<in>set new. wait_event e))"
proof (induction u k s w rule: wait_for_asset_activation_loop.induct)
  case (1 u k s w)
  show ?case
  proof (cases "clock w - s < timeout")
    case False
    with "1.prems" show ?thesis
      by auto
  next
    case True
    obtain st w1 where g: "get_asset_activation_status u w = (st, w1)"
      by (cases "get_asset_activation_status u w")
    note f = status_frame [OF g]
    from f obtain new1 where new1: "trace w1 = trace w @ new1" "\<forall>e\<in>set new1. wait_event e"
      using status_event_wait by blast
    have base: "net w1 = net w \<and> files w1 = files w \<and> served w \<le> served w1
      \<and> status_file w1 = status_file w
      \<and> (\<exists>new. trace w1 = trace w @ new \<and> (\<forall>e\<in>set new. wait_event e))"
      using f new1 by auto
    show ?thesis
    proof (cases st)
      case None
      with "1.prems" True g base show ?thesis by auto
    next
      case (Some j)
      show ?thesis
      proof (cases "truthy j")
        case False
        with "1.prems" True g Some base show ?thesis by auto
      next
        case tr: True
        show ?thesis
        proof (cases "subscript j ''status''")
          case (Inl e)
          with "1.prems" True g Some tr base show ?thesis by auto
        next
          case (Inr v)
          show ?thesis
          proof (cases "v = JStr ''active''")
            case act: True
            with "1.prems" True g Some tr Inr
            have ra: "record_active k w1 = (r, w')" by simp
            from record_active_frame [OF ra] f new1 show ?thesis
              by auto
          next
            case nact: False
            with "1.prems" True g Some tr Inr
            have rec: "wait_for_asset_activation_loop u k s (sleep check_interval w1) = (r, w')"
              by simp
            have tr': "\<not> \<not> truthy j" using tr by simp
            from "1.IH" [OF True g [symmetric] Some tr' Inr nact rec] f new1
            show ?thesis
              by auto
          qed
        qed
      qed
    qed
  qed
qed

lemma delivered_later:
  "delivered w1 w' url p \<Longrightarrow> served w \<le> served w1 \<Longrightarrow> net w1 = net w
     \<Longrightarrow> delivered w w' url p"
  unfolding delivered_def by (metis le_trans)

lemma download_loop_frame:
  "download_asset_loop n d u p w = (ok, w') \<Longrightarrow>
     net w' = net w \<and> status_file w' = status_file w \<and> served w \<le> served w'
     \<and> (\<forall>q. files w q \<noteq> None \<longrightarrow> files w' q \<noteq> None)
     \<and> (\<forall>q. q \<noteq> p \<longrightarrow> files w' q = files w q)
     \<and> (\<exists>new. trace w' = trace w @ new \<and> (\<forall>e\<in>set new. download_event e))
     \<and> (\<forall>i<served w. asked w' i = asked w i)
     \<and> (ok \<longrightarrow> delivered w w' u p)"
proof (induction n arbitrary: d w)
  case 0
  then show ?case by simp
next
  case (Suc n)
  obtain out w1 where req: "request DownloadGet u w = (out, w1)"
    by (cases "request DownloadGet u w")
  note f = request_frame [OF req]
  have done_now: ?case
    if r: "out = Reply r" "status_code r = 200" "\<not> stream_breaks r" for r
  proof -
    from Suc.prems req r have "ok" "w' = write_chunks p r w1"
      by (auto simp: Let_def)
    moreover have "delivered w (write_chunks p r w1) u p"
      unfolding delivered_def using f r
      by (intro exI [of _ "served w"] exI [of _ "fst (net w (served w))"] exI [of _ r])
         (auto simp: write_chunks_def)
    ultimately show ?thesis
      using f by (auto simp: write_chunks_def)
  qed
  have later: ?case
    if rest: "download_asset_loop n d' u p w2 = (ok, w')"
      and w2: "net w2 = net w" "status_file w2 = status_file w" "served w < served w2"
        "\<forall>q. files w q \<noteq> None \<longrightarrow> files w2 q \<noteq> None"
        "\<forall>q. q \<noteq> p \<longrightarrow> files w2 q = files w q"
        "\<exists>new. trace w2 = trace w @ new \<and> (\<forall>e\<in>set new. download_event e)"
        "\<forall>i<served w. asked w2 i = asked w i"
    for d' w2
  proof -
    note ih = Suc.IH [OF rest]
    have "ok \<longrightarrow> delivered w w' u p"
      using ih w2 delivered_later [of w2 w' u p w] by auto
    moreover have "\<forall>i<served w. asked w' i = asked w i"
      using ih w2 by auto
    moreover have "\<exists>new. trace w' = trace w @ new \<and> (\<forall>e\<in>set new. download_event e)"
    proof -
      from w2 obtain n1 where n1: "trace w2 = trace w @ n1" "\<forall>e\<in>set n1. download_event e"
        by blast
      from ih obtain n2 where n2: "trace w' = trace w2 @ n2" "\<forall>e\<in>set n2. download_event e"
        by blast
      show ?thesis
        using n1 n2 by (intro exI [of _ "n1 @ n2"]) auto
    qed
    ultimately show ?thesis
      using ih w2 by auto
  qed
  show ?case
  proof (cases out)
    case Fault
    with Suc.prems req
    have "download_asset_loop n (if 0 < n then d * 2 else d) u p
            (if 0 < n then sleep d w1 else w1) = (ok, w')"
      by auto
    then show ?thesis
      by (rule later) (auto simp: f)
  next
    case (Reply r)
    show ?thesis
    proof (cases "status_code r = 200")
      case ok200: True
      show ?thesis
      proof (cases "stream_breaks r")
        case False
        with Reply ok200 show ?thesis by (intro done_now [of r]) auto
      next
        case True
        with Suc.prems req Reply ok200
        have "download_asset_loop n (if 0 < n then d * 2 else d) u p
                (if 0 < n then sleep d (write_chunks p r w1) else write_chunks p r w1)
              = (ok, w')"
          by (auto simp: Let_def)
        then show ?thesis
          by (rule later) (auto simp: f write_chunks_def)
      qed
    next
      case False
      with Suc.prems req Reply
      have "download_asset_loop n (if status_code r = 429 \<or> 0 < n then d * 2 else d) u p
              (if status_code r = 429 \<or> 0 < n then sleep d w1 else w1) = (ok, w')"
        by (auto split: if_splits)
      then show ?thesis
        by (rule later) (auto simp: f)
    qed
  qed
qed

lemma answered_later:
  "answered w1 w' link j \<Longrightarrow> served w \<le> served w1 \<Longrightarrow> net w1 = net w
     \<Longrightarrow> answered w w' link j"
  unfolding answered_def by (metis le_trans)

lemma answered_longer:
  "answered w w1 link j \<Longrightarrow> served w1 \<le> served w'
     \<Longrightarrow> \<forall>i<served w1. asked w' i = asked w1 i \<Longrightarrow> answered w w' link j"
  unfolding answered_def by (metis less_le_trans)

lemma status_loop_answer:
  "get_asset_activation_status_loop n d u w = (Some j, w') \<Longrightarrow> answered w w' u j"
proof (induction n arbitrary: d w)
  case 0
  then show ?case by simp
next
  case (Suc n)
  obtain out w1 where req: "request StatusGet u w = (out, w1)"
    by (cases "request StatusGet u w")
  note f = request_frame [OF req]
  show ?case
  proof (cases "\<exists>r. out = Reply r \<and> status_code r = 200 \<and> json_body r \<noteq> None")
    case True
    then obtain r where r: "out = Reply r" "status_code r = 200" "json_body r \<noteq> None"
      by blast
    with Suc.prems req have "json_body r = Some j" "w' = w1"
      by auto
    with f r show ?thesis
      unfolding answered_def
      by (intro exI [of _ "served w"] exI [of _ "fst (net w (served w))"] exI [of _ r]) auto
  next
    case False
    with Suc.prems req obtain d' w2 where
      rest: "get_asset_activation_status_loop n d' u w2 = (Some j, w')"
      and w2: "w2 = w1 \<or> w2 = sleep d w1"
      by (auto split: outcome.splits if_splits option.splits)
    from Suc.IH [OF rest] have "answered w2 w' u j" .
    then show ?thesis
      using w2 f by (auto intro: answered_later)
  qed
qed

lemma status_answer:
  "get_asset_activation_status u w = (Some j, w') \<Longrightarrow> answered w w' u j"
  unfolding get_asset_activation_status_def by (rule status_loop_answer)

lemma status_event_download: "status_event e \<Longrightarrow> download_event e"
  by (cases e rule: status_event.cases) auto

lemma download_frame:
  assumes "download_asset u p w = (r, w')"
  shows "net w' = net w \<and> status_file w' = status_file w \<and> served w \<le> served w'
     \<and> (\<forall>q. files w q \<noteq> None \<longrightarrow> files w' q \<noteq> None)
     \<and> (\<forall>q. q \<noteq> p \<longrightarrow> files w' q = files w q)
     \<and> (\<exists>new. trace w' = trace w @ new \<and> (\<forall>e\<in>set new. download_event e))
     \<and> (r = Inr True \<longrightarrow> (\<exists>url. reported_active w w' url \<and> delivered w w' url p))"
proof -
  let ?w0 = "log (Log_downloading p) w"
  obtain st w1 where g: "get_asset_activation_status u ?w0 = (st, w1)"
    by (cases "get_asset_activation_status u ?w0")
  note f = status_frame [OF g]
  from f obtain new1 where new1: "trace w1 = trace ?w0 @ new1" "\<forall>e\<in>set new1. download_event e"
    using status_event_download by blast
  have base: "net w1 = net w \<and> status_file w1 = status_file w \<and> served w \<le> served w1
     \<and> (\<forall>q. files w q \<noteq> None \<longrightarrow> files w1 q \<noteq> None)
     \<and> (\<forall>q. q \<noteq> p \<longrightarrow> files w1 q = files w q)
     \<and> (\<exists>new. trace w1 = trace w @ new \<and> (\<forall>e\<in>set new. download_event e))"
    using f new1 by auto
  show ?thesis
  proof (cases "\<exists>j url. st = Some j \<and> truthy j \<and> subscript j ''status'' = Inr (JStr ''active'')
      \<and> contains ''location'' j = Inr True \<and> subscript j ''location'' = Inr (JStr url)")
    case False
    with assms g have "w' = w1 \<and> r \<noteq> Inr True"
      by (auto simp: download_asset_def split: option.splits sum.splits if_splits json.splits
          prod.splits)
    with base show ?thesis by simp
  next
    case True
    then obtain j url where j: "st = Some j" "truthy j"
      "subscript j ''status'' = Inr (JStr ''active'')"
      "contains ''location'' j = Inr True" "subscript j ''location'' = Inr (JStr url)"
      by blast
    obtain ok where dl: "download_asset_loop max_retries 2 url p w1 = (ok, w')" and r: "r = Inr ok"
      using assms g j by (auto simp: download_asset_def split: prod.splits)
    note f2 = download_loop_frame [OF dl]
    have "answered w w1 u j"
      using status_answer [of u ?w0 j w1] g j by (simp add: answered_def)
    then have "answered w w' u j"
      using f2 by (auto intro: answered_longer)
    then have "reported_active w w' url"
      unfolding reported_active_def using j by blast
    moreover have "ok \<longrightarrow> delivered w w' url p"
      using f2 base by (auto intro: delivered_later)
    moreover have "\<exists>new. trace w' = trace w @ new \<and> (\<forall>e\<in>set new. download_event e)"
    proof -
      from base obtain n1 where n1: "trace w1 = trace w @ n1" "\<forall>e\<in>set n1. download_event e"
        by blast
      from f2 obtain n2 where n2: "trace w' = trace w1 @ n2" "\<forall>e\<in>set n2. download_event e"
        by blast
      show ?thesis
        using n1 n2 by (intro exI [of _ "n1 @ n2"]) auto
    qed
    ultimately show ?thesis
      using f2 base r by auto
  qed
qed

lemma wait_frame:
  assumes "wait_for_asset_activation u w = (r, w')"
  shows "net w' = net w \<and> files w' = files w \<and> served w \<le> served w'
     \<and> status_file w' =
         (if r = Inr True then recorded (derived_key u) (status_file w) else status_file w)
     \<and> (\<exists>new. trace w' = trace w @ new \<and> (\<forall>e\<in>set new. wait_event e))"
proof -
  from assms
  have "wait_for_asset_activation_loop u (derived_key u) (clock w) (log Log_waiting w) = (r, w')"
    by (simp add: wait_for_asset_activation_def Let_def
        del: wait_for_asset_activation_loop.simps)
  from wait_loop_frame [OF this] show ?thesis
    by auto
qed

lemma subscript_truthy: "subscript j k = Inr v \<Longrightarrow> truthy j"
  by (cases j) (auto split: option.splits)

lemmas run_simps =
  get_asset_activation_status_def activate_asset_def wait_for_asset_activation_def
  max_retries_def numeral_3_eq_3 request_def fresh_world_def scripted_def json_reply_def
  log_def sleep_def code_of_def timeout_def check_interval_def record_active_def
  load_status_def save_status_def save_status_steps_def run_steps_def open_w_def
  json_dump_def derived_key_def Let_def

lemma recorded_has_activated [simp]:
  "has_activated k (recorded dk f) = has_activated k f"
  by (auto simp: recorded_def has_activated_def split: option.splits ledger_file.splits)

lemma recorded_has_downloaded [simp]:
  "has_downloaded k (recorded dk f) = has_downloaded k f"
  by (auto simp: recorded_def has_downloaded_def split: option.splits ledger_file.splits)

lemma accepted_is_post: "accepted_post e \<Longrightarrow> activation_post e"
  by (cases e rule: accepted_post.cases) auto

lemma wait_event_props:
  "wait_event e \<Longrightarrow> \<not> activation_post e \<and> \<not> accepted_post e \<and> \<not> download_mark e \<and> scene_event e"
  by (cases e rule: wait_event.cases) auto

lemma activate_event_props:
  "activate_event e \<Longrightarrow> \<not> download_mark e \<and> scene_event e"
  by (cases e rule: activate_event.cases) auto

lemma download_event_props:
  "download_event e \<Longrightarrow> \<not> activation_post e \<and> \<not> accepted_post e \<and> scene_event e"
  by (cases e rule: download_event.cases) auto

lemma no_posts: "\<forall>e\<in>set new. wait_event e \<Longrightarrow>
    filter activation_post new = [] \<and> filter accepted_post new = []"
  by (auto simp: filter_empty_conv dest: wait_event_props)

lemma activation_step_frame:
  assumes "activation_step st key al sl ao w = (ra, w')"
  shows "net w' = net w \<and> files w' = files w \<and> served w \<le> served w'
    \<and> (\<exists>new. trace w' = trace w @ new \<and> (\<forall>e\<in>set new. activate_event e \<or> wait_event e)
         \<and> length (filter accepted_post new) \<le> 1
         \<and> (activated_scenes st key \<noteq> None \<longrightarrow> filter activation_post new = [])
         \<and> (filter accepted_post new \<noteq> [] \<longrightarrow> has_activated key (status_file w')))
    \<and> (\<exists>f. (f = status_file w \<or> f = Snapshot (requested st key))
          \<and> (status_file w' = f \<or> status_file w' = recorded (derived_key sl) f))
    \<and> (\<forall>st'. ra = Inr (Some st') \<longrightarrow> activated_scenes st' key \<noteq> None
           \<and> downloaded_scenes st' = downloaded_scenes st)"
proof (cases "activated_scenes st key \<noteq> None")
  case True
  show ?thesis
  proof (cases ao)
    case ao: True
    with assms True have "w' = w" "ra = Inr (Some st)"
      by (auto simp: activation_step_def)
    with True show ?thesis by auto
  next
    case False
    obtain rw w1 where wt: "wait_for_asset_activation sl w = (rw, w1)"
      by (cases "wait_for_asset_activation sl w")
    note f = wait_frame [OF wt]
    from f obtain new where new: "trace w1 = trace w @ new" "\<forall>e\<in>set new. wait_event e"
      by blast
    from assms True False wt have w': "w' = w1"
      and ra: "\<forall>st'. ra = Inr (Some st') \<longrightarrow> st' = st"
      by (auto simp: activation_step_def split: sum.splits if_splits)
    have tr: "\<exists>new. trace w' = trace w @ new \<and> (\<forall>e\<in>set new. activate_event e \<or> wait_event e)
         \<and> length (filter accepted_post new) \<le> 1
         \<and> (activated_scenes st key \<noteq> None \<longrightarrow> filter activation_post new = [])
         \<and> (filter accepted_post new \<noteq> [] \<longrightarrow> has_activated key (status_file w'))"
      using new no_posts [OF new(2)] w' by (intro exI [of _ new]) auto
    have fl: "\<exists>f. (f = status_file w \<or> f = Snapshot (requested st key))
          \<and> (status_file w' = f \<or> status_file w' = recorded (derived_key sl) f)"
      using f w' by (intro exI [of _ "status_file w"]) auto
    show ?thesis
      using tr fl f w' ra True by auto
  qed
next
  case absent: False
  obtain ok w1 where act: "activate_asset al w = (ok, w1)"
    by (cases "activate_asset al w")
  note fa = activate_frame [OF act]
  from fa obtain new1 where new1: "trace w1 = trace w @ new1" "\<forall>e\<in>set new1. activate_event e"
    "length (filter accepted_post new1) = (if ok then 1 else 0)"
    by blast
  show ?thesis
  proof (cases ok)
    case False
    with assms absent act have "w' = w1" "ra = Inr None"
      by (auto simp: activation_step_def)
    moreover have "\<exists>new. trace w1 = trace w @ new \<and> (\<forall>e\<in>set new. activate_event e \<or> wait_event e)
         \<and> length (filter accepted_post new) \<le> 1
         \<and> (activated_scenes st key \<noteq> None \<longrightarrow> filter activation_post new = [])
         \<and> (filter accepted_post new \<noteq> [] \<longrightarrow> has_activated key (status_file w1))"
      using new1 False absent by (intro exI [of _ new1]) auto
    moreover have "\<exists>f. (f = status_file w \<or> f = Snapshot (requested st key))
          \<and> (status_file w1 = f \<or> status_file w1 = recorded (derived_key sl) f)"
      using fa by (intro exI [of _ "status_file w"]) auto
    ultimately show ?thesis
      using fa by auto
  next
    case ok: True
    let ?w2 = "save_status (requested st key) w1"
    have key_in: "activated_scenes (requested st key) key \<noteq> None"
      "downloaded_scenes (requested st key) = downloaded_scenes st"
      by (simp_all add: requested_def)
    show ?thesis
    proof (cases ao)
      case ao: True
      with assms absent act ok have w': "w' = ?w2" and ra: "ra = Inr (Some (requested st key))"
        by (auto simp: activation_step_def requested_def Let_def)
      have "\<exists>new. trace w' = trace w @ new \<and> (\<forall>e\<in>set new. activate_event e \<or> wait_event e)
         \<and> length (filter accepted_post new) \<le> 1
         \<and> (activated_scenes st key \<noteq> None \<longrightarrow> filter activation_post new = [])
         \<and> (filter accepted_post new \<noteq> [] \<longrightarrow> has_activated key (status_file w'))"
        using new1 ok absent w' key_in
        by (intro exI [of _ "new1 @ [Saved_status]"]) (auto simp: has_activated_def)
      moreover have "\<exists>f. (f = status_file w \<or> f = Snapshot (requested st key))
          \<and> (status_file w' = f \<or> status_file w' = recorded (derived_key sl) f)"
        using w' by (intro exI [of _ "Snapshot (requested st key)"]) auto
      ultimately show ?thesis
        using fa w' ra key_in by auto
    next
      case False
      obtain rw w3 where wt: "wait_for_asset_activation sl ?w2 = (rw, w3)"
        by (cases "wait_for_asset_activation sl ?w2")
      note f = wait_frame [OF wt]
      from f obtain new2 where new2: "trace w3 = trace ?w2 @ new2" "\<forall>e\<in>set new2. wait_event e"
        by blast
      from assms absent act ok False wt have w': "w' = w3"
        and ra: "\<forall>st'. ra = Inr (Some st') \<longrightarrow> st' = requested st key"
        by (auto simp: activation_step_def requested_def Let_def split: sum.splits if_splits)
      have fl: "status_file w' = Snapshot (requested st key)
          \<or> status_file w' = recorded (derived_key sl) (Snapshot (requested st key))"
        using f w' by auto
      moreover have "has_activated key (Snapshot (requested st key))"
        using key_in by (simp add: has_activated_def)
      ultimately have on_file: "has_activated key (status_file w')"
        by auto
      have "\<exists>new. trace w' = trace w @ new \<and> (\<forall>e\<in>set new. activate_event e \<or> wait_event e)
         \<and> length (filter accepted_post new) \<le> 1
         \<and> (activated_scenes st key \<noteq> None \<longrightarrow> filter activation_post new = [])
         \<and> (filter accepted_post new \<noteq> [] \<longrightarrow> has_activated key (status_file w'))"
        using new1 new2 no_posts [OF new2(2)] ok absent w' on_file
        by (intro exI [of _ "new1 @ Saved_status # new2"]) auto
      moreover have "\<exists>f. (f = status_file w \<or> f = Snapshot (requested st key))
          \<and> (status_file w' = f \<or> status_file w' = recorded (derived_key sl) f)"
        using fl by (intro exI [of _ "Snapshot (requested st key)"]) auto
      ultimately show ?thesis
        using fa f w' ra key_in by auto
    qed
  qed
qed

lemma delivered_saved [simp]:
  "delivered w (save_status st w1) url p = delivered w w1 url p"
  by (simp add: delivered_def)

lemma reported_saved [simp]:
  "reported_active w (save_status st w1) url = reported_active w w1 url"
  by (simp add: reported_active_def answered_def)

lemma download_step_frame:
  assumes "download_step st' key sl raw w = (r, w')"
  shows "net w' = net w \<and> served w \<le> served w'
    \<and> (\<forall>q. files w q \<noteq> None \<longrightarrow> files w' q \<noteq> None)
    \<and> (\<forall>q. q \<noteq> raw \<longrightarrow> files w' q = files w q)
    \<and> (\<exists>new. trace w' = trace w @ new \<and> (\<forall>e\<in>set new. download_event e \<or> e = Saved_status))
    \<and> (status_file w' = status_file w
         \<or> (r = Inr True \<and> status_file w' = Snapshot (flagged st' key)
              \<and> (\<exists>url. reported_active w w' url \<and> delivered w w' url raw)))
    \<and> (downloaded_scenes st' key \<noteq> None \<and> files w raw \<noteq> None \<longrightarrow> w' = w \<and> r = Inr True)"
proof (cases "downloaded_scenes st' key \<noteq> None \<and> files w raw \<noteq> None")
  case True
  with assms have "w' = w" "r = Inr True"
    by (auto simp: download_step_def)
  then show ?thesis by auto
next
  case False
  obtain rd w1 where dl: "download_asset sl raw w = (rd, w1)"
    by (cases "download_asset sl raw w")
  note f = download_frame [OF dl]
  from f obtain new1 where new1: "trace w1 = trace w @ new1" "\<forall>e\<in>set new1. download_event e"
    by blast
  show ?thesis
  proof (cases "rd = Inr True")
    case True
    with assms False dl have w': "w' = save_status (flagged st' key) w1" and r: "r = Inr True"
      by (auto simp: download_step_def flagged_def)
    have "\<exists>new. trace w' = trace w @ new \<and> (\<forall>e\<in>set new. download_event e \<or> e = Saved_status)"
      using new1 w' by (intro exI [of _ "new1 @ [Saved_status]"]) auto
    then show ?thesis
      using f w' r True False by auto
  next
    case nt: False
    with assms False dl have w': "w' = w1"
      by (auto simp: download_step_def split: sum.splits if_splits)
    have "\<exists>new. trace w' = trace w @ new \<and> (\<forall>e\<in>set new. download_event e \<or> e = Saved_status)"
      using new1 w' by (intro exI [of _ new1]) auto
    then show ?thesis
      using f w' False by auto
  qed
qed

lemma save_metadata_frame:
  "save_metadata sc od w = (d, w1) \<Longrightarrow>
     d = date_dir_of sc od \<and> net w1 = net w \<and> served w1 = served w
     \<and> status_file w1 = status_file w \<and> trace w1 = trace w
     \<and> asked w1 = asked w \<and> saved w1 = saved w
     \<and> (\<forall>q. files w q \<noteq> None \<longrightarrow> files w1 q \<noteq> None)
     \<and> (\<forall>q. q \<noteq> path_join (date_dir_of sc od) (scene_id sc @ ''_metadata.json'')
            \<longrightarrow> files w1 q = files w q)"
  by (auto simp: save_metadata_def Let_def)

lemma process_scene_unfold:
  assumes "process_scene sc at od ao w = (r, w')"
  shows "(\<exists>e. load_status w = Inl e \<and> r = Inl e \<and> w' = snd (save_metadata sc od w))
     \<or> (\<exists>st out. load_status w = Inr st
           \<and> request AssetsGet (assets_url_of sc) (snd (save_metadata sc od w)) = (out, w')
           \<and> r \<noteq> Inr True)
     \<or> (\<exists>st rp w2 alink slink ra w3. load_status w = Inr st
           \<and> request AssetsGet (assets_url_of sc) (snd (save_metadata sc od w)) = (Reply rp, w2)
           \<and> activation_step st (asset_key_of sc at) alink slink ao w2 = (ra, w3)
           \<and> ((\<exists>e. ra = Inl e \<and> r = Inl e \<and> w' = w3)
              \<or> (ra = Inr None \<and> r = Inr False \<and> w' = w3)
              \<or> (\<exists>st'. ra = Inr (Some st') \<and> ao \<and> r = Inr True \<and> w' = w3)
              \<or> (\<exists>st'. ra = Inr (Some st') \<and> \<not> ao
                    \<and> download_step st' (asset_key_of sc at) slink
                          (raw_tif_path_of sc at od) w3 = (r, w'))))"
proof -
  obtain d w1 where sm: "save_metadata sc od w = (d, w1)"
    by (cases "save_metadata sc od w")
  note fm = save_metadata_frame [OF sm]
  have ld: "load_status w1 = load_status w"
    using fm by (simp add: load_status_def)
  show ?thesis
  proof (cases "load_status w")
    case (Inl e)
    with assms sm ld show ?thesis
      by (auto simp: process_scene_def)
  next
    case (Inr st)
    obtain out w2 where req: "request AssetsGet (assets_url_of sc) w1 = (out, w2)"
      by (cases "request AssetsGet (assets_url_of sc) w1")
    show ?thesis
    proof (cases "\<exists>rp assets alink slink. out = Reply rp \<and> status_code rp = 200
        \<and> json_body rp = Some assets \<and> resolve_links assets at = Inr (Some (alink, slink))")
      case False
      with assms sm ld Inr req have "w' = w2 \<and> r \<noteq> Inr True"
        by (auto simp: process_scene_def split: outcome.splits option.splits sum.splits
            if_splits)
      with Inr req sm show ?thesis by auto
    next
      case True
      then obtain rp assets alink slink where rp: "out = Reply rp" "status_code rp = 200"
        "json_body rp = Some assets" "resolve_links assets at = Inr (Some (alink, slink))"
        by blast
      obtain ra w3 where act:
        "activation_step st (asset_key_of sc at) alink slink ao w2 = (ra, w3)"
        by (cases "activation_step st (asset_key_of sc at) alink slink ao w2")
      have "(\<exists>e. ra = Inl e \<and> r = Inl e \<and> w' = w3)
              \<or> (ra = Inr None \<and> r = Inr False \<and> w' = w3)
              \<or> (\<exists>st'. ra = Inr (Some st') \<and> ao \<and> r = Inr True \<and> w' = w3)
              \<or> (\<exists>st'. ra = Inr (Some st') \<and> \<not> ao
                    \<and> download_step st' (asset_key_of sc at) slink
                          (raw_tif_path_of sc at od) w3 = (r, w'))"
        using assms sm ld Inr req rp act fm
        by (auto simp: process_scene_def raw_tif_path_of_def split: sum.splits option.splits
            if_splits)
      with Inr req rp act sm show ?thesis
        by (intro disjI2) (simp, blast)
    qed
  qed
qed

lemma reported_later:
  "reported_active w1 w' url \<Longrightarrow> served w \<le> served w1 \<Longrightarrow> net w1 = net w
     \<Longrightarrow> reported_active w w' url"
  unfolding reported_active_def by (blast intro: answered_later)

lemma request_event_props:
  "\<not> activation_post (Request AssetsGet u c)" "\<not> accepted_post (Request AssetsGet u c)"
  "\<not> download_mark (Request AssetsGet u c)" "scene_event (Request AssetsGet u c)"
  "\<not> activation_post Saved_status" "\<not> accepted_post Saved_status" "scene_event Saved_status"
  by simp_all

lemma has_activated_load:
  "has_activated k (status_file w) \<Longrightarrow> load_status w = Inr st \<Longrightarrow> activated_scenes st k \<noteq> None"
  by (auto simp: has_activated_def load_status_def split: ledger_file.splits)

lemma has_downloaded_load:
  "load_status w = Inr st \<Longrightarrow> has_downloaded k (status_file w) = (downloaded_scenes st k \<noteq> None)"
  by (auto simp: has_downloaded_def load_status_def empty_ledger_def split: ledger_file.splits)

lemma process_scene_frame:
  assumes run: "process_scene sc at od ao w = (r, w')"
  defines "key \<equiv> asset_key_of sc at" and "raw \<equiv> raw_tif_path_of sc at od"
  shows "net w' = net w \<and> served w \<le> served w'
    \<and> (\<forall>q. files w q \<noteq> None \<longrightarrow> files w' q \<noteq> None)
    \<and> (\<exists>new. trace w' = trace w @ new \<and> (\<forall>e\<in>set new. scene_event e)
          \<and> length (filter accepted_post new) \<le> 1
          \<and> (has_activated key (status_file w) \<longrightarrow> filter activation_post new = [])
          \<and> (filter accepted_post new \<noteq> [] \<longrightarrow> has_activated key (status_file w'))
          \<and> (has_downloaded key (status_file w) \<and> files w raw \<noteq> None
                \<longrightarrow> filter download_mark new = [])
          \<and> (\<forall>st. load_status w = Inr st
                \<longrightarrow> (\<exists>c rest. new = Request AssetsGet (assets_url_of sc) c # rest)))
    \<and> (has_activated key (status_file w) \<longrightarrow> has_activated key (status_file w'))
    \<and> (\<not> has_downloaded key (status_file w) \<and> has_downloaded key (status_file w')
          \<longrightarrow> r = Inr True
            \<and> (\<exists>url. reported_active w w' url \<and> delivered w w' url raw))
    \<and> (has_downloaded key (status_file w) \<and> files w raw \<noteq> None
          \<longrightarrow> files w' = files (snd (save_metadata sc od w)))"
proof -
  obtain d w1 where sm: "save_metadata sc od w = (d, w1)"
    by (cases "save_metadata sc od w")
  note fm = save_metadata_frame [OF sm]
  have w1: "snd (save_metadata sc od w) = w1"
    using sm by simp
  from process_scene_unfold [OF run, unfolded w1]
  consider
    (load) e where "load_status w = Inl e" "r = Inl e" "w' = w1"
  | (early) st out where "load_status w = Inr st"
      "request AssetsGet (assets_url_of sc) w1 = (out, w')" "r \<noteq> Inr True"
  | (steps) st rp w2 alink slink ra w3 where "load_status w = Inr st"
      "request AssetsGet (assets_url_of sc) w1 = (Reply rp, w2)"
      "activation_step st key alink slink ao w2 = (ra, w3)"
      "(\<exists>e. ra = Inl e \<and> r = Inl e \<and> w' = w3)
        \<or> (ra = Inr None \<and> r = Inr False \<and> w' = w3)
        \<or> (\<exists>st'. ra = Inr (Some st') \<and> ao \<and> r = Inr True \<and> w' = w3)
        \<or> (\<exists>st'. ra = Inr (Some st') \<and> \<not> ao \<and> download_step st' key slink raw w3 = (r, w'))"
    unfolding key_def raw_def by blast
  then show ?thesis
  proof cases
    case load
    then have "trace w' = trace w @ []" "status_file w' = status_file w"
      using fm by auto
    then show ?thesis
      using load fm w1 by (auto simp del: append_Nil2)
  next
    case early
    note fr = request_frame [OF early(2)]
    have "\<exists>new. trace w' = trace w @ new \<and> (\<forall>e\<in>set new. scene_event e)
          \<and> length (filter accepted_post new) \<le> 1
          \<and> (has_activated key (status_file w) \<longrightarrow> filter activation_post new = [])
          \<and> (filter accepted_post new \<noteq> [] \<longrightarrow> has_activated key (status_file w'))
          \<and> (has_downloaded key (status_file w) \<and> files w raw \<noteq> None
                \<longrightarrow> filter download_mark new = [])
          \<and> (\<forall>st. load_status w = Inr st
                \<longrightarrow> (\<exists>c rest. new = Request AssetsGet (assets_url_of sc) c # rest))"
      using fr fm
      by (intro exI [of _ "[Request AssetsGet (assets_url_of sc) (code_of out)]"]) auto
    then show ?thesis
      using fr fm early w1 by auto
  next
    case steps
    note fr = request_frame [OF steps(2)]
    note fa = activation_step_frame [OF steps(3)]
    from fa obtain newA where newA: "trace w3 = trace w2 @ newA"
      "\<forall>e\<in>set newA. activate_event e \<or> wait_event e"
      "length (filter accepted_post newA) \<le> 1"
      "activated_scenes st key \<noteq> None \<longrightarrow> filter activation_post newA = []"
      "filter accepted_post newA \<noteq> [] \<longrightarrow> has_activated key (status_file w3)"
      by blast
    from fa obtain f where f: "f = status_file w2 \<or> f = Snapshot (requested st key)"
      "status_file w3 = f \<or> status_file w3 = recorded (derived_key slink) f"
      by blast
    have sf2: "status_file w2 = status_file w"
      using fr fm by simp
    have newA_scene: "\<forall>e\<in>set newA. scene_event e \<and> \<not> download_mark e"
      using newA(2) wait_event_props activate_event_props by blast
    have req_act: "has_activated key (Snapshot (requested st key))"
      by (simp add: has_activated_def requested_def)
    have req_dl: "has_downloaded key (Snapshot (requested st key))
        = has_downloaded key (status_file w)"
      using has_downloaded_load [OF steps(1), of key]
      by (simp add: has_downloaded_def requested_def)
    have act3: "has_activated key (status_file w) \<longrightarrow> has_activated key (status_file w3)"
      using f sf2 req_act by auto
    have dl3: "\<not> has_downloaded key (status_file w) \<longrightarrow> \<not> has_downloaded key (status_file w3)"
      using f sf2 req_dl by auto
    have tr3: "trace w3 = trace w @ Request AssetsGet (assets_url_of sc) (code_of (Reply rp)) # newA"
      using newA fr fm by simp
    have base3: "net w3 = net w \<and> served w \<le> served w3 \<and> files w3 = files w1"
      using fa fr fm by auto
    have posts3: "has_activated key (status_file w) \<longrightarrow> filter activation_post newA = []"
      using newA(4) has_activated_load [OF _ steps(1)] by blast
    have stop: ?thesis if "w' = w3" "r \<noteq> Inr True \<or> ao"
    proof -
      have "\<exists>new. trace w' = trace w @ new \<and> (\<forall>e\<in>set new. scene_event e)
          \<and> length (filter accepted_post new) \<le> 1
          \<and> (has_activated key (status_file w) \<longrightarrow> filter activation_post new = [])
          \<and> (filter accepted_post new \<noteq> [] \<longrightarrow> has_activated key (status_file w'))
          \<and> (has_downloaded key (status_file w) \<and> files w raw \<noteq> None
                \<longrightarrow> filter download_mark new = [])
          \<and> (\<forall>st. load_status w = Inr st
                \<longrightarrow> (\<exists>c rest. new = Request AssetsGet (assets_url_of sc) c # rest))"
        using tr3 newA newA_scene posts3 that
        by (intro exI [of _ "Request AssetsGet (assets_url_of sc) (code_of (Reply rp)) # newA"])
           (auto simp: filter_empty_conv)
      then show ?thesis
        using base3 fm act3 dl3 that w1 by auto
    qed
    from steps(4) show ?thesis
    proof (elim disjE exE conjE)
      fix e assume "ra = Inl e" "r = Inl e" "w' = w3"
      then show ?thesis by (intro stop) auto
    next
      assume "ra = Inr None" "r = Inr False" "w' = w3"
      then show ?thesis by (intro stop) auto
    next
      fix st' assume "ra = Inr (Some st')" "ao" "r = Inr True" "w' = w3"
      then show ?thesis by (intro stop) auto
    next
      fix st' assume ra: "ra = Inr (Some st')" and nao: "\<not> ao"
        and ds: "download_step st' key slink raw w3 = (r, w')"
      note fd = download_step_frame [OF ds]
      from fa ra have st': "activated_scenes st' key \<noteq> None"
        "downloaded_scenes st' = downloaded_scenes st"
        by auto
      from fd obtain newD where newD: "trace w' = trace w3 @ newD"
        "\<forall>e\<in>set newD. download_event e \<or> e = Saved_status"
        by blast
      have newD_props: "\<forall>e\<in>set newD. scene_event e \<and> \<not> activation_post e \<and> \<not> accepted_post e"
        using newD(2) download_event_props by auto
      have skip: "newD = [] \<and> files w' = files (snd (save_metadata sc od w))"
        if "has_downloaded key (status_file w)" "files w raw \<noteq> None"
      proof -
        have "downloaded_scenes st' key \<noteq> None"
          using that st' has_downloaded_load [OF steps(1), of key] by simp
        moreover have "files w3 raw \<noteq> None"
          using that base3 fm by auto
        ultimately have "w' = w3"
          using fd by blast
        with newD base3 w1 show ?thesis by simp
      qed
      have sfile: "status_file w' = status_file w3
         \<or> (r = Inr True \<and> status_file w' = Snapshot (flagged st' key)
              \<and> (\<exists>url. reported_active w3 w' url \<and> delivered w3 w' url raw))"
        using fd by blast
      have act': "has_activated key (status_file w3) \<longrightarrow> has_activated key (status_file w')"
        using sfile st' by (auto simp: has_activated_def flagged_def)
      have dl': "\<not> has_downloaded key (status_file w) \<and> has_downloaded key (status_file w')
          \<longrightarrow> r = Inr True
            \<and> (\<exists>url. reported_active w w' url \<and> delivered w w' url raw)"
      proof (intro impI)
        assume "\<not> has_downloaded key (status_file w) \<and> has_downloaded key (status_file w')"
        with sfile dl3 obtain url where got: "r = Inr True" "reported_active w3 w' url"
          "delivered w3 w' url raw"
          by auto
        have "reported_active w w' url"
          using got(2) base3 by (intro reported_later [of w3 w' url w]) auto
        moreover have "delivered w w' url raw"
          using got(3) base3 by (intro delivered_later [of w3 w' url raw w]) auto
        ultimately show "r = Inr True
            \<and> (\<exists>url. reported_active w w' url \<and> delivered w w' url raw)"
          using got(1) by blast
      qed
      have "\<exists>new. trace w' = trace w @ new \<and> (\<forall>e\<in>set new. scene_event e)
          \<and> length (filter accepted_post new) \<le> 1
          \<and> (has_activated key (status_file w) \<longrightarrow> filter activation_post new = [])
          \<and> (filter accepted_post new \<noteq> [] \<longrightarrow> has_activated key (status_file w'))
          \<and> (has_downloaded key (status_file w) \<and> files w raw \<noteq> None
                \<longrightarrow> filter download_mark new = [])
          \<and> (\<forall>st. load_status w = Inr st
                \<longrightarrow> (\<exists>c rest. new = Request AssetsGet (assets_url_of sc) c # rest))"
      proof (intro exI [of _ "Request AssetsGet (assets_url_of sc) (code_of (Reply rp)) # newA @ newD"]
          conjI)
        show "trace w' = trace w @ Request AssetsGet (assets_url_of sc) (code_of (Reply rp)) # newA @ newD"
          using tr3 newD by simp
        show "\<forall>e\<in>set (Request AssetsGet (assets_url_of sc) (code_of (Reply rp)) # newA @ newD). scene_event e"
          using newA_scene newD_props by auto
        have noD: "filter accepted_post newD = []" "filter activation_post newD = []"
          using newD_props by (auto simp: filter_empty_conv)
        show "length (filter accepted_post
            (Request AssetsGet (assets_url_of sc) (code_of (Reply rp)) # newA @ newD)) \<le> 1"
          using newA(3) noD by simp
        show "has_activated key (status_file w) \<longrightarrow> filter activation_post
            (Request AssetsGet (assets_url_of sc) (code_of (Reply rp)) # newA @ newD) = []"
          using posts3 noD by simp
        show "filter accepted_post
            (Request AssetsGet (assets_url_of sc) (code_of (Reply rp)) # newA @ newD) \<noteq> []
            \<longrightarrow> has_activated key (status_file w')"
          using newA(5) noD act' by simp
        show "has_downloaded key (status_file w) \<and> files w raw \<noteq> None \<longrightarrow> filter download_mark
            (Request AssetsGet (assets_url_of sc) (code_of (Reply rp)) # newA @ newD) = []"
          using skip newA_scene by (auto simp: filter_empty_conv)
        show "\<forall>st. load_status w = Inr st \<longrightarrow> (\<exists>c rest.
            Request AssetsGet (assets_url_of sc) (code_of (Reply rp)) # newA @ newD
              = Request AssetsGet (assets_url_of sc) c # rest)"
          by simp
      qed
      moreover have "net w' = net w \<and> served w \<le> served w'
          \<and> (\<forall>q. files w q \<noteq> None \<longrightarrow> files w' q \<noteq> None)"
        using fd base3 fm by auto
      ultimately show ?thesis
        using act3 act' dl' skip by auto
    qed
  qed
qed

lemmas scene_simps =
  process_scene_def save_metadata_def date_dir_of_def raw_tif_path_of_def path_join_def
  assets_url_of_def asset_key_of_def BASE_URL_def resolve_links_def activation_step_def
  download_step_def download_asset_def write_chunks_def metadata_of_def dict_get_def
  s1_def listing_def token_link_def keyed_link_def body_def active_status_def
  requested_ledger_def done_ledger_def activation_on_file_def has_activated_def
  has_downloaded_def empty_ledger_def

lemma path_join_last: "b \<noteq> [] \<Longrightarrow> last (path_join a b) = last b"
  by (simp add: path_join_def)

lemma sidecar_is_not_raw:
  "path_join d (scene_id sc @ ''_metadata.json'') \<noteq> raw_tif_path_of sc t od"
proof
  assume "path_join d (scene_id sc @ ''_metadata.json'') = raw_tif_path_of sc t od"
  then have "last (path_join d (scene_id sc @ ''_metadata.json''))
      = last (path_join (date_dir_of sc od) (scene_id sc @ ''_'' @ t @ ''.tif''))"
    by (simp add: raw_tif_path_of_def)
  then show False
    by (simp add: path_join_last)
qed

lemmas batch_simps =
  main_def search_planet_imagery_def display_status_summary_def scene_of_def SEARCH_URL_def
  feature1_def search_reply_def

lemma status_loop_saved:
  "get_asset_activation_status_loop n d u w = (r, w') \<Longrightarrow> saved w' = saved w"
proof (induction n arbitrary: d w)
  case 0
  then show ?case by simp
next
  case (Suc n)
  show ?case
    using Suc.prems
    by (auto simp: request_def split: prod.splits outcome.splits if_splits option.splits
        dest!: Suc.IH)
qed

lemma activate_loop_posts:
  "activate_asset_loop n d u w = (ok, w') \<Longrightarrow>
     saved w' = saved w
     \<and> length (filter activation_post (trace w')) \<le> length (filter activation_post (trace w)) + n"
proof (induction n arbitrary: d w)
  case 0
  then show ?case by simp
next
  case (Suc n)
  show ?case
    using Suc.prems
    by (auto simp: request_def split: prod.splits outcome.splits if_splits dest!: Suc.IH)
qed

lemma activate_posts:
  "activate_asset u w = (ok, w') \<Longrightarrow>
     saved w' = saved w
     \<and> length (filter activation_post (trace w')) \<le> length (filter activation_post (trace w)) + 3"
  unfolding activate_asset_def
  by (drule activate_loop_posts) (auto simp: max_retries_def)

lemma download_loop_saved:
  "download_asset_loop n d u p w = (ok, w') \<Longrightarrow> saved w' = saved w"
proof (induction n arbitrary: d w)
  case 0
  then show ?case by simp
next
  case (Suc n)
  show ?case
    using Suc.prems
    by (auto simp: request_def write_chunks_def Let_def
        split: prod.splits outcome.splits if_splits dest!: Suc.IH)
qed

lemma download_saved:
  "download_asset u p w = (r, w') \<Longrightarrow> saved w' = saved w"
  by (auto simp: download_asset_def get_asset_activation_status_def
      split: prod.splits option.splits sum.splits if_splits json.splits
      dest!: status_loop_saved download_loop_saved)

lemma record_active_saved:
  "record_active k w = (r, w') \<Longrightarrow> \<exists>more. saved w' = saved w @ more"
  by (auto simp: record_active_def split: option.splits sum.splits if_splits)

lemma wait_loop_saved:
  "wait_for_asset_activation_loop u k s w = (r, w') \<Longrightarrow> \<exists>more. saved w' = saved w @ more"
proof (induction u k s w rule: wait_for_asset_activation_loop.induct)
  case (1 u k s w)
  show ?case
  proof (cases "clock w - s < timeout")
    case False
    with "1.prems" show ?thesis
      by auto
  next
    case True
    obtain st w1 where g: "get_asset_activation_status u w = (st, w1)"
      by (cases "get_asset_activation_status u w")
    have s1: "saved w1 = saved w"
      using g status_loop_saved unfolding get_asset_activation_status_def by blast
    show ?thesis
    proof (cases "\<exists>j v. st = Some j \<and> truthy j \<and> subscript j ''status'' = Inr v")
      case False
      with "1.prems" True g have "w' = w1"
        by (auto split: option.splits sum.splits if_splits)
      with s1 show ?thesis by simp
    next
      case some: True
      then obtain j v where j: "st = Some j" "truthy j" "subscript j ''status'' = Inr v"
        by blast
      show ?thesis
      proof (cases "v = JStr ''active''")
        case act: True
        with "1.prems" True g j have "record_active k w1 = (r, w')"
          by simp
        from record_active_saved [OF this] s1 show ?thesis
          by simp
      next
        case nact: False
        with "1.prems" True g j
        have rec: "wait_for_asset_activation_loop u k s (sleep check_interval w1) = (r, w')"
          by simp
        have tr': "\<not> \<not> truthy j" using j by simp
        from "1.IH" [OF True g [symmetric] j(1) tr' j(3) nact rec] s1
        show ?thesis
          by simp
      qed
    qed
  qed
qed

lemma wait_saved:
  assumes "wait_for_asset_activation u w = (r, w')"
  shows "\<exists>more. saved w' = saved w @ more"
proof -
  from assms
  have "wait_for_asset_activation_loop u (derived_key u) (clock w) (log Log_waiting w) = (r, w')"
    by (simp add: wait_for_asset_activation_def Let_def
        del: wait_for_asset_activation_loop.simps)
  from wait_loop_saved [OF this] show ?thesis
    by simp
qed

lemma download_step_saved:
  "download_step st' key sl raw w = (r, w') \<Longrightarrow> \<exists>more. saved w' = saved w @ more"
  by (auto simp: download_step_def split: prod.splits sum.splits if_splits
      dest!: download_saved)

lemma activate_loop_last:
  "activate_asset_loop n d u w = (True, w') \<Longrightarrow>
     \<exists>pre e. trace w' = trace w @ pre @ [e] \<and> accepted_post e
        \<and> (\<forall>x\<in>set pre. activate_event x)"
proof (induction n arbitrary: d w)
  case 0
  then show ?case by simp
next
  case (Suc n)
  obtain out w1 where req: "request ActivatePost u w = (out, w1)"
    by (cases "request ActivatePost u w")
  note f = request_frame [OF req]
  show ?case
  proof (cases "\<exists>r. out = Reply r \<and> (status_code r = 202 \<or> status_code r = 204)")
    case True
    with Suc.prems req have "w' = w1"
      by auto
    with f True show ?thesis
      by (intro exI [of _ "[]"] exI [of _ "Request ActivatePost u (code_of out)"])
         (auto simp: code_of_def)
  next
    case False
    with Suc.prems req obtain d' w2 where
      rest: "activate_asset_loop n d' u w2 = (True, w')"
      and w2: "w2 = w1 \<or> w2 = sleep d w1"
      by (auto split: outcome.splits if_splits)
    from Suc.IH [OF rest] obtain pre e where
      pe: "trace w' = trace w2 @ pre @ [e]" "accepted_post e" "\<forall>x\<in>set pre. activate_event x"
      by blast
    from w2 show ?thesis
    proof
      assume "w2 = w1"
      with pe f show ?thesis
        by (intro exI [of _ "Request ActivatePost u (code_of out) # pre"] exI [of _ e]) auto
    next
      assume "w2 = sleep d w1"
      with pe f show ?thesis
        by (intro exI [of _ "Request ActivatePost u (code_of out) # Sleep d # pre"] exI [of _ e])
           auto
    qed
  qed
qed

lemma activate_last:
  assumes "activate_asset u w = (True, w')"
  shows "\<exists>pre e. trace w' = trace w @ pre @ [e] \<and> accepted_post e
        \<and> (\<forall>x\<in>set pre. activate_event x)"
proof -
  from assms activate_loop_last [of max_retries 2 u "log (Log_activating u) w" w']
  obtain pre e where "trace w' = trace (log (Log_activating u) w) @ pre @ [e]"
    "accepted_post e" "\<forall>x\<in>set pre. activate_event x"
    by (auto simp: activate_asset_def)
  then show ?thesis
    by (intro exI [of _ "Log_activating u # pre"] exI [of _ e]) auto
qed

lemma activation_step_saved:
  assumes step: "activation_step st key al sl ao w = (ra, w')"
    and more: "length (filter accepted_post (trace w)) < length (filter accepted_post (trace w'))"
  shows "\<exists>pre e post more. trace w' = trace w @ pre @ e # Saved_status # post
        \<and> accepted_post e \<and> (\<forall>x\<in>set pre. activate_event x)
        \<and> saved w' = saved w @ requested st key # more"
proof -
  from activation_step_frame [OF step] obtain new where
    new: "trace w' = trace w @ new"
      "activated_scenes st key \<noteq> None \<longrightarrow> filter activation_post new = []"
    by auto
  have absent: "activated_scenes st key = None"
  proof (rule ccontr)
    assume "activated_scenes st key \<noteq> None"
    with new have "filter accepted_post new = []"
      by (auto simp: filter_empty_conv dest: accepted_is_post)
    with new more show False by simp
  qed
  obtain ok w1 where act: "activate_asset al w = (ok, w1)"
    by (cases "activate_asset al w")
  have ok: ok
  proof (rule ccontr)
    assume "\<not> ok"
    with step absent act have "w' = w1"
      by (auto simp: activation_step_def)
    moreover from activate_frame [OF act] \<open>\<not> ok\<close> obtain n1 where
      "trace w1 = trace w @ n1" "length (filter accepted_post n1) = 0"
      by auto
    ultimately show False
      using more by simp
  qed
  from act ok have "activate_asset al w = (True, w1)"
    by simp
  from activate_last [OF this] obtain pre e where
    pe: "trace w1 = trace w @ pre @ [e]" "accepted_post e" "\<forall>x\<in>set pre. activate_event x"
    by blast
  have s1: "saved w1 = saved w"
    using activate_posts [OF act] by simp
  let ?w2 = "save_status (requested st key) w1"
  have "\<exists>post more. trace w' = trace ?w2 @ post \<and> saved w' = saved ?w2 @ more"
  proof (cases ao)
    case True
    with step absent act ok have "w' = ?w2"
      by (auto simp: activation_step_def requested_def Let_def)
    then show ?thesis by simp
  next
    case False
    obtain rw w3 where wt: "wait_for_asset_activation sl ?w2 = (rw, w3)"
      by (cases "wait_for_asset_activation sl ?w2")
    with step absent act ok False have "w' = w3"
      by (auto simp: activation_step_def requested_def Let_def split: sum.splits if_splits)
    with wait_frame [OF wt] wait_saved [OF wt] show ?thesis by auto
  qed
  then obtain post more where "trace w' = trace ?w2 @ post" "saved w' = saved ?w2 @ more"
    by blast
  with pe s1 show ?thesis
    by (intro exI [of _ pre] exI [of _ e] exI [of _ post] exI [of _ more]) simp
qed

lemma activation_step_posts:
  assumes step: "activation_step st key al sl ao w = (ra, w')"
  shows "length (filter activation_post (trace w')) \<le> length (filter activation_post (trace w)) + 3
    \<and> (length (filter activation_post (trace w)) < length (filter activation_post (trace w'))
          \<and> length (filter accepted_post (trace w')) = length (filter accepted_post (trace w))
        \<longrightarrow> ra = Inr None \<and> status_file w' = status_file w \<and> saved w' = saved w)
    \<and> (activated_scenes st key = None \<and> ra \<noteq> Inr None \<and> (\<forall>e. ra \<noteq> Inl e)
        \<longrightarrow> length (filter accepted_post (trace w)) < length (filter accepted_post (trace w')))"
proof (cases "activated_scenes st key \<noteq> None")
  case True
  from activation_step_frame [OF step] True obtain new where
    "trace w' = trace w @ new" "filter activation_post new = []"
    by auto
  with True show ?thesis by auto
next
  case absent: False
  obtain ok w1 where act: "activate_asset al w = (ok, w1)"
    by (cases "activate_asset al w")
  note fa = activate_frame [OF act]
  note pa = activate_posts [OF act]
  from fa obtain new1 where new1: "trace w1 = trace w @ new1"
    "length (filter accepted_post new1) = (if ok then 1 else 0)"
    by blast
  show ?thesis
  proof (cases ok)
    case False
    with step absent act have "w' = w1" "ra = Inr None"
      by (auto simp: activation_step_def)
    with fa pa new1 False absent show ?thesis
      by auto
  next
    case ok: True
    let ?w2 = "save_status (requested st key) w1"
    have "\<exists>post. trace w' = trace ?w2 @ post \<and> (\<forall>e\<in>set post. wait_event e)"
    proof (cases ao)
      case True
      with step absent act ok have "w' = ?w2"
        by (auto simp: activation_step_def requested_def Let_def)
      then show ?thesis by simp
    next
      case False
      obtain rw w3 where wt: "wait_for_asset_activation sl ?w2 = (rw, w3)"
        by (cases "wait_for_asset_activation sl ?w2")
      with step absent act ok False have "w' = w3"
        by (auto simp: activation_step_def requested_def Let_def split: sum.splits if_splits)
      with wait_frame [OF wt] show ?thesis by auto
    qed
    then obtain post where post: "trace w' = trace ?w2 @ post" "\<forall>e\<in>set post. wait_event e"
      by blast
    have none: "filter activation_post post = []" "filter accepted_post post = []"
      using no_posts [OF post(2)] by simp_all
    have "length (filter activation_post (trace w'))
        \<le> length (filter activation_post (trace w)) + 3"
      using post none pa by simp
    moreover have "length (filter accepted_post (trace w))
        < length (filter accepted_post (trace w'))"
      using post none new1 ok by simp
    ultimately show ?thesis
      by simp
  qed
qed

lemma activate_event_not_status: "activate_event x \<Longrightarrow> \<not> status_request x"
  by (cases x rule: activate_event.cases) auto

lemma process_scene_saved:
  assumes run: "process_scene sc at od ao w = (r, w')"
    and more: "length (filter accepted_post (trace w)) < length (filter accepted_post (trace w'))"
  shows "\<exists>st pre e post more. load_status w = Inr st
        \<and> trace w' = trace w @ pre @ e # Saved_status # post \<and> accepted_post e
        \<and> filter status_request pre = [] \<and> Saved_status \<notin> set pre
        \<and> saved w' = saved w @ requested st (asset_key_of sc at) # more"
proof -
  obtain d w1 where sm: "save_metadata sc od w = (d, w1)"
    by (cases "save_metadata sc od w")
  note fm = save_metadata_frame [OF sm]
  have w1: "snd (save_metadata sc od w) = w1"
    using sm by simp
  from process_scene_unfold [OF run, unfolded w1]
  consider
    (load) "w' = w1"
  | (early) out where "request AssetsGet (assets_url_of sc) w1 = (out, w')"
  | (steps) st rp w2 alink slink ra w3 where
      "request AssetsGet (assets_url_of sc) w1 = (Reply rp, w2)"
      "activation_step st (asset_key_of sc at) alink slink ao w2 = (ra, w3)"
      "w' = w3 \<or> (\<exists>st'. download_step st' (asset_key_of sc at) slink
                           (raw_tif_path_of sc at od) w3 = (r, w'))"
      "load_status w = Inr st"
    by blast
  then show ?thesis
  proof cases
    case load
    with fm more show ?thesis by simp
  next
    case early
    from request_frame [OF early] fm more show ?thesis by simp
  next
    case steps
    note fr = request_frame [OF steps(1)]
    have tr2: "trace w2 = trace w @ [Request AssetsGet (assets_url_of sc) (code_of (Reply rp))]"
      using fr fm by simp
    have "\<exists>newD moreD. trace w' = trace w3 @ newD \<and> filter accepted_post newD = []
        \<and> saved w' = saved w3 @ moreD"
      using steps(3)
    proof
      assume "w' = w3"
      then show ?thesis by simp
    next
      assume "\<exists>st'. download_step st' (asset_key_of sc at) slink
                           (raw_tif_path_of sc at od) w3 = (r, w')"
      then obtain st' where ds: "download_step st' (asset_key_of sc at) slink
                           (raw_tif_path_of sc at od) w3 = (r, w')" ..
      from download_step_frame [OF ds] obtain newD where
        newD: "trace w' = trace w3 @ newD" "\<forall>e\<in>set newD. download_event e \<or> e = Saved_status"
        by blast
      from download_step_saved [OF ds] obtain moreD where "saved w' = saved w3 @ moreD" ..
      with newD show ?thesis
        using download_event_props
        by (intro exI [of _ newD] exI [of _ moreD]) (auto simp: filter_empty_conv)
    qed
    then obtain newD moreD where newD: "trace w' = trace w3 @ newD"
      "filter accepted_post newD = []" and moreD: "saved w' = saved w3 @ moreD"
      by blast
    from activation_step_frame [OF steps(2)] obtain newA where newA: "trace w3 = trace w2 @ newA"
      by auto
    have "length (filter accepted_post (trace w2)) < length (filter accepted_post (trace w3))"
      using more newD newA tr2 by simp
    from activation_step_saved [OF steps(2) this] obtain pre e post moreA where
      pe: "trace w3 = trace w2 @ pre @ e # Saved_status # post" "accepted_post e"
        "\<forall>x\<in>set pre. activate_event x"
      and moreA: "saved w3 = saved w2 @ requested st (asset_key_of sc at) # moreA"
      by blast
    have s2: "saved w2 = saved w"
      using fr fm by simp
    have "filter status_request
        (Request AssetsGet (assets_url_of sc) (code_of (Reply rp)) # pre) = []"
      "Saved_status \<notin> set (Request AssetsGet (assets_url_of sc) (code_of (Reply rp)) # pre)"
      using pe(3) by (auto simp: filter_empty_conv dest: activate_event_not_status)
    with pe newD tr2 moreA moreD s2 steps(4) show ?thesis
      by (intro exI [of _ st]
          exI [of _ "Request AssetsGet (assets_url_of sc) (code_of (Reply rp)) # pre"]
          exI [of _ e] exI [of _ "post @ newD"] exI [of _ "moreA @ moreD"]) simp
  qed
qed

lemma process_scene_posts:
  assumes run: "process_scene sc at od ao w = (r, w')"
  shows "length (filter activation_post (trace w')) \<le> length (filter activation_post (trace w)) + 3
    \<and> (length (filter activation_post (trace w)) < length (filter activation_post (trace w'))
          \<and> length (filter accepted_post (trace w')) = length (filter accepted_post (trace w))
        \<longrightarrow> r = Inr False \<and> status_file w' = status_file w \<and> saved w' = saved w)
    \<and> (\<not> has_activated (asset_key_of sc at) (status_file w) \<and> r = Inr True
        \<longrightarrow> length (filter accepted_post (trace w)) < length (filter accepted_post (trace w')))"
proof -
  obtain d w1 where sm: "save_metadata sc od w = (d, w1)"
    by (cases "save_metadata sc od w")
  note fm = save_metadata_frame [OF sm]
  have w1: "snd (save_metadata sc od w) = w1"
    using sm by simp
  from process_scene_unfold [OF run, unfolded w1]
  consider
    (load) e where "r = Inl e" "w' = w1"
  | (early) out where "request AssetsGet (assets_url_of sc) w1 = (out, w')" "r \<noteq> Inr True"
  | (steps) st rp w2 alink slink ra w3 where "load_status w = Inr st"
      "request AssetsGet (assets_url_of sc) w1 = (Reply rp, w2)"
      "activation_step st (asset_key_of sc at) alink slink ao w2 = (ra, w3)"
      "(\<exists>e. ra = Inl e \<and> r = Inl e \<and> w' = w3)
        \<or> (ra = Inr None \<and> r = Inr False \<and> w' = w3)
        \<or> (\<exists>st'. ra = Inr (Some st') \<and> ao \<and> r = Inr True \<and> w' = w3)
        \<or> (\<exists>st'. ra = Inr (Some st') \<and> \<not> ao
              \<and> download_step st' (asset_key_of sc at) slink
                    (raw_tif_path_of sc at od) w3 = (r, w'))"
    by blast
  then show ?thesis
  proof cases
    case load
    with fm show ?thesis by simp
  next
    case early
    from request_frame [OF early(1)] fm early(2) show ?thesis by simp
  next
    case steps
    note fr = request_frame [OF steps(2)]
    note pa = activation_step_posts [OF steps(3)]
    have tr2: "trace w2 = trace w @ [Request AssetsGet (assets_url_of sc) (code_of (Reply rp))]"
      "status_file w2 = status_file w" "saved w2 = saved w"
      using fr fm by simp_all
    have posts2: "filter activation_post (trace w2) = filter activation_post (trace w)"
      "filter accepted_post (trace w2) = filter accepted_post (trace w)"
      using tr2 by simp_all
    have absent: "activated_scenes st (asset_key_of sc at) = None"
      if "\<not> has_activated (asset_key_of sc at) (status_file w)"
      using that steps(1)
      by (auto simp: has_activated_def load_status_def empty_ledger_def
          split: ledger_file.splits)
    have stop: ?thesis if w': "w' = w3" and r: "r = Inr True \<longrightarrow> (\<exists>st'. ra = Inr (Some st'))"
      "r = Inr False \<or> ra \<noteq> Inr None"
    proof -
      have "r = Inr False \<and> status_file w' = status_file w \<and> saved w' = saved w"
        if "length (filter activation_post (trace w)) < length (filter activation_post (trace w'))"
          "length (filter accepted_post (trace w')) = length (filter accepted_post (trace w))"
        using that pa posts2 tr2 w' r by auto
      moreover have "length (filter accepted_post (trace w))
          < length (filter accepted_post (trace w'))"
        if "\<not> has_activated (asset_key_of sc at) (status_file w)" "r = Inr True"
        using that absent pa posts2 w' r by auto
      ultimately show ?thesis
        using pa posts2 w' by auto
    qed
    from steps(4) show ?thesis
    proof (elim disjE exE conjE)
      fix e assume "ra = Inl e" "r = Inl e" "w' = w3"
      then show ?thesis by (intro stop) auto
    next
      assume "ra = Inr None" "r = Inr False" "w' = w3"
      then show ?thesis by (intro stop) auto
    next
      fix st' assume "ra = Inr (Some st')" "ao" "r = Inr True" "w' = w3"
      then show ?thesis by (intro stop) auto
    next
      fix st' assume ra: "ra = Inr (Some st')" and nao: "\<not> ao"
        and ds: "download_step st' (asset_key_of sc at) slink
                    (raw_tif_path_of sc at od) w3 = (r, w')"
      from download_step_frame [OF ds] obtain newD where
        newD: "trace w' = trace w3 @ newD" "\<forall>e\<in>set newD. download_event e \<or> e = Saved_status"
        by blast
      have noD: "filter accepted_post newD = []" "filter activation_post newD = []"
        using newD(2) download_event_props by (auto simp: filter_empty_conv)
      have postsD: "filter activation_post (trace w') = filter activation_post (trace w3)"
        "filter accepted_post (trace w') = filter accepted_post (trace w3)"
        using newD noD by simp_all
      have "length (filter accepted_post (trace w))
          < length (filter accepted_post (trace w'))"
        if "\<not> has_activated (asset_key_of sc at) (status_file w)"
        using that absent pa posts2 postsD ra by auto
      moreover have "\<not> (length (filter activation_post (trace w))
            < length (filter activation_post (trace w'))
          \<and> length (filter accepted_post (trace w')) = length (filter accepted_post (trace w)))"
        using pa posts2 postsD ra by auto
      ultimately show ?thesis
        using pa posts2 postsD by auto
    qed
  qed
qed

lemma documented_link_key:
  "derived_key ''https://api.planet.com/data/v1/item-types/PSScene/items/S1/assets/x''
     = Some ''items_x''"
  by (simp add: derived_key_def)

section \<open>Activation is requested once\<close>

text \<open>
  C1 as stated does not hold: the activation POST is retried. With a provider that
  answers the first POST with 500 and the second with 202, two successive runs for the
  same work item issue two activation POSTs for its key, both in the first run.
\<close>

theorem activation_posts_repeat_counterexample:
  "filter activation_post
     (trace (snd (process_scene s1 ''x'' ''out'' True
                    (snd (process_scene s1 ''x'' ''out'' True retry_world))))) =
     [Request ActivatePost ''https://act'' (Some 500),
      Request ActivatePost ''https://act'' (Some 202)]"
  by (simp add: scene_simps run_simps retry_world_def)

text \<open>
  C1, as amended. Over two successive runs of \<^verbatim>\<open>process_scene\<close> for a work item, at
  most one activation POST for its key is accepted (202 or 204). When the first run had
  one accepted, the first snapshot that run saved is the ledger it had loaded with the
  key added to \<^verbatim>\<open>activated_scenes\<close> as \<^verbatim>\<open>"activating"\<close>, saved right after the accepted
  POST and before any status check; the key is in the ledger file once the run ends,
  however it ended, and the second run issues no activation POST at all. When the key was
  in the ledger file from the start, neither run issues one. A run issues at most three
  activation POSTs; a run that issued some and had none accepted returns \<^verbatim>\<open>False\<close> and
  leaves the ledger file as it was, with nothing saved; and a run that starts with the
  key absent from the ledger file returns \<^verbatim>\<open>True\<close> only if it had a POST accepted.
\<close>

theorem activation_accepted_once:
  assumes "process_scene sc asset_type output_dir ao w = (r1, w1)"
    and "process_scene sc asset_type output_dir ao' w1 = (r2, w2)"
  shows "length (filter accepted_post (trace w2)) \<le> length (filter accepted_post (trace w)) + 1
    \<and> (length (filter accepted_post (trace w)) < length (filter accepted_post (trace w1))
         \<longrightarrow> has_activated (asset_key_of sc asset_type) (status_file w1)
           \<and> filter activation_post (trace w2) = filter activation_post (trace w1)
           \<and> (\<exists>st pre e post more. load_status w = Inr st
                  \<and> trace w1 = trace w @ pre @ e # Saved_status # post
                  \<and> accepted_post e \<and> filter status_request pre = []
                  \<and> Saved_status \<notin> set pre
                  \<and> saved w1 = saved w
                       @ st\<lparr>activated_scenes :=
                              (activated_scenes st)(asset_key_of sc asset_type \<mapsto> ''activating'')\<rparr>
                       # more))
    \<and> (has_activated (asset_key_of sc asset_type) (status_file w)
         \<longrightarrow> filter activation_post (trace w2) = filter activation_post (trace w))
    \<and> length (filter activation_post (trace w1)) \<le> length (filter activation_post (trace w)) + 3
    \<and> length (filter activation_post (trace w2)) \<le> length (filter activation_post (trace w1)) + 3
    \<and> (length (filter activation_post (trace w)) < length (filter activation_post (trace w1))
          \<and> length (filter accepted_post (trace w1)) = length (filter accepted_post (trace w))
         \<longrightarrow> r1 = Inr False \<and> status_file w1 = status_file w \<and> saved w1 = saved w)
    \<and> (\<not> has_activated (asset_key_of sc asset_type) (status_file w1) \<and> r2 = Inr True
         \<longrightarrow> length (filter accepted_post (trace w1)) < length (filter accepted_post (trace w2)))"
proof -
  let ?key = "asset_key_of sc asset_type"
  from process_scene_frame [OF assms(1)] obtain n1 where n1: "trace w1 = trace w @ n1"
    "length (filter accepted_post n1) \<le> 1"
    "has_activated ?key (status_file w) \<longrightarrow> filter activation_post n1 = []"
    "filter accepted_post n1 \<noteq> [] \<longrightarrow> has_activated ?key (status_file w1)"
    and keep1: "has_activated ?key (status_file w) \<longrightarrow> has_activated ?key (status_file w1)"
    by auto
  from process_scene_frame [OF assms(2)] obtain n2 where n2: "trace w2 = trace w1 @ n2"
    "length (filter accepted_post n2) \<le> 1"
    "has_activated ?key (status_file w1) \<longrightarrow> filter activation_post n2 = []"
    by auto
  have none2: "filter accepted_post n2 = []" if "filter activation_post n2 = []"
    using that by (auto simp: filter_empty_conv dest: accepted_is_post)
  have a: "length (filter accepted_post (trace w2)) \<le> length (filter accepted_post (trace w)) + 1"
  proof (cases "filter accepted_post n1 = []")
    case True
    with n1 n2 show ?thesis by simp
  next
    case False
    with n1 n2 none2 have "filter accepted_post n2 = []" by blast
    with n1 n2 show ?thesis by simp
  qed
  have b: "length (filter accepted_post (trace w)) < length (filter accepted_post (trace w1))
         \<longrightarrow> has_activated ?key (status_file w1)
           \<and> filter activation_post (trace w2) = filter activation_post (trace w1)
           \<and> (\<exists>st pre e post more. load_status w = Inr st
                  \<and> trace w1 = trace w @ pre @ e # Saved_status # post
                  \<and> accepted_post e \<and> filter status_request pre = []
                  \<and> Saved_status \<notin> set pre
                  \<and> saved w1 = saved w
                       @ st\<lparr>activated_scenes := (activated_scenes st)(?key \<mapsto> ''activating'')\<rparr>
                       # more)"
  proof (intro impI)
    assume inc: "length (filter accepted_post (trace w)) < length (filter accepted_post (trace w1))"
    with n1 have on: "has_activated ?key (status_file w1)"
      by auto
    with n2 have same: "filter activation_post (trace w2) = filter activation_post (trace w1)"
      by simp
    from process_scene_saved [OF assms(1) inc]
    have "\<exists>st pre e post more. load_status w = Inr st
                  \<and> trace w1 = trace w @ pre @ e # Saved_status # post
                  \<and> accepted_post e \<and> filter status_request pre = []
                  \<and> Saved_status \<notin> set pre
                  \<and> saved w1 = saved w
                       @ st\<lparr>activated_scenes := (activated_scenes st)(?key \<mapsto> ''activating'')\<rparr>
                       # more"
      unfolding requested_def .
    with on same show "has_activated ?key (status_file w1)
           \<and> filter activation_post (trace w2) = filter activation_post (trace w1)
           \<and> (\<exists>st pre e post more. load_status w = Inr st
                  \<and> trace w1 = trace w @ pre @ e # Saved_status # post
                  \<and> accepted_post e \<and> filter status_request pre = []
                  \<and> Saved_status \<notin> set pre
                  \<and> saved w1 = saved w
                       @ st\<lparr>activated_scenes := (activated_scenes st)(?key \<mapsto> ''activating'')\<rparr>
                       # more)"
      by (intro conjI)
  qed
  have c: "has_activated ?key (status_file w)
         \<longrightarrow> filter activation_post (trace w2) = filter activation_post (trace w)"
    using n1 n2 keep1 by auto
  note p1 = process_scene_posts [OF assms(1)]
  note p2 = process_scene_posts [OF assms(2)]
  have d1: "length (filter activation_post (trace w1))
      \<le> length (filter activation_post (trace w)) + 3"
    using p1 by simp
  have d2: "length (filter activation_post (trace w2))
      \<le> length (filter activation_post (trace w1)) + 3"
    using p2 by simp
  have e: "length (filter activation_post (trace w)) < length (filter activation_post (trace w1))
          \<and> length (filter accepted_post (trace w1)) = length (filter accepted_post (trace w))
         \<longrightarrow> r1 = Inr False \<and> status_file w1 = status_file w \<and> saved w1 = saved w"
    using p1 by simp
  have f: "\<not> has_activated ?key (status_file w1) \<and> r2 = Inr True
         \<longrightarrow> length (filter accepted_post (trace w1)) < length (filter accepted_post (trace w2))"
    using p2 by simp
  show ?thesis
    by (intro conjI a b c d1 d2 e f)
qed

theorem activation_accepted_once_witness:
  "fst (process_scene s1 ''x'' ''out'' True retry_world) = Inr True
   \<and> length (filter accepted_post (trace retry_world))
       < length (filter accepted_post (trace (snd (process_scene s1 ''x'' ''out'' True retry_world))))
   \<and> has_activated (asset_key_of s1 ''x'')
       (status_file (snd (process_scene s1 ''x'' ''out'' True retry_world)))
   \<and> filter activation_post
       (trace (snd (process_scene s1 ''x'' ''out'' True
                      (snd (process_scene s1 ''x'' ''out'' True retry_world))))) =
     filter activation_post (trace (snd (process_scene s1 ''x'' ''out'' True retry_world)))
   \<and> saved (snd (process_scene s1 ''x'' ''out'' True retry_world)) = [requested_ledger]"
proof -
  let ?run1 = "process_scene s1 ''x'' ''out'' True retry_world"
  let ?run2 = "process_scene s1 ''x'' ''out'' True (snd ?run1)"
  have r1: "?run1 = (fst ?run1, snd ?run1)" and r2: "?run2 = (fst ?run2, snd ?run2)"
    by simp_all
  have ok: "fst ?run1 = Inr True"
    by (simp add: scene_simps run_simps retry_world_def)
  have more: "length (filter accepted_post (trace retry_world))
       < length (filter accepted_post (trace (snd ?run1)))"
    by (simp add: scene_simps run_simps retry_world_def)
  have first: "saved (snd ?run1) = [requested_ledger]"
    by (simp add: scene_simps run_simps retry_world_def)
  show ?thesis
    using activation_accepted_once [OF r1 r2, THEN conjunct2, THEN conjunct1] ok more first
    by blast
qed

section \<open>The activation state on file\<close>

text \<open>
  C2. The program breaks this claim: \<^verbatim>\<open>process_scene\<close> saves, after a download, the
  ledger it loaded before polling. Starting from a ledger that holds \<^verbatim>\<open>S1_x\<close> as
  \<^verbatim>\<open>"activating"\<close>, with a self link from which the key \<^verbatim>\<open>S1_x\<close> is derived, polling
  sets the entry on file to \<^verbatim>\<open>"active"\<close>, and the save that follows the download sets it
  back to \<^verbatim>\<open>"activating"\<close>, in a run that returns \<^verbatim>\<open>True\<close>.
\<close>

theorem active_entry_regresses:
  "activation_on_file ''S1_x'' regress_world = Some ''activating''
   \<and> activation_on_file ''S1_x''
        (snd (wait_for_asset_activation keyed_link
               (snd (request AssetsGet (assets_url_of s1)
                      (snd (save_metadata s1 ''out'' regress_world)))))) = Some ''active''
   \<and> fst (process_scene s1 ''x'' ''out'' False regress_world) = Inr True
   \<and> activation_on_file ''S1_x'' (snd (process_scene s1 ''x'' ''out'' False regress_world))
       = Some ''activating''
   \<and> trace (snd (process_scene s1 ''x'' ''out'' False regress_world)) =
       [Request AssetsGet ''https://api.planet.com/data/v1/item-types/PSScene/items/S1/assets''
          (Some 200),
        Log_waiting, Request StatusGet keyed_link (Some 200), Saved_status,
        Log_downloading ''out/2024/2024-01-02/S1_x.tif'',
        Request StatusGet keyed_link (Some 200),
        Request DownloadGet ''https://dl/S1'' (Some 200), Saved_status]"
  by (simp add: scene_simps run_simps regress_world_def)

section \<open>A work item already downloaded\<close>

text \<open>
  C3 as stated does not hold: there is no early exit for a completed item. With the
  ledger holding \<^verbatim>\<open>S1_x\<close> as active and downloaded and the destination file on disk,
  \<^verbatim>\<open>process_scene\<close> still makes two HTTP requests, the assets listing and one status
  poll.
\<close>

theorem completed_item_requests_counterexample:
  "load_status done_world = Inr done_ledger
   \<and> downloaded_scenes done_ledger (asset_key_of s1 ''x'') = Some True
   \<and> files done_world (raw_tif_path_of s1 ''x'' ''out'') = Some (Bytes ''abcd'')
   \<and> served done_world = 0
   \<and> served (snd (process_scene s1 ''x'' ''out'' False done_world)) = 2
   \<and> trace (snd (process_scene s1 ''x'' ''out'' False done_world)) =
       [Request AssetsGet ''https://api.planet.com/data/v1/item-types/PSScene/items/S1/assets''
          (Some 200),
        Log_waiting, Request StatusGet token_link (Some 200)]"
  by (simp add: scene_simps run_simps load_status_def done_world_def)

text \<open>
  C3, as amended. For every work item that the ledger holds in \<^verbatim>\<open>downloaded_scenes\<close>
  and whose destination file exists, \<^verbatim>\<open>process_scene\<close> skips the download only: it
  never enters \<^verbatim>\<open>download_asset\<close>, so it makes no download request, and it writes no
  file but the metadata sidecar, which leaves the destination file as it was. It still
  starts with the assets-listing request, and goes on to activation or polling as for
  any other item.
\<close>

theorem completed_item_skips_download:
  assumes "process_scene sc asset_type output_dir ao w = (r, w')"
    and "load_status w = Inr st"
    and "downloaded_scenes st (asset_key_of sc asset_type) \<noteq> None"
    and "files w (raw_tif_path_of sc asset_type output_dir) \<noteq> None"
  shows "(\<exists>c rest. trace w' = trace w @ Request AssetsGet (assets_url_of sc) c # rest
            \<and> filter download_mark rest = [])
       \<and> files w' = (files w)(path_join (date_dir_of sc output_dir)
                                (scene_id sc @ ''_metadata.json'')
                              \<mapsto> Json_text (metadata_of sc))
       \<and> files w' (raw_tif_path_of sc asset_type output_dir)
           = files w (raw_tif_path_of sc asset_type output_dir)"
proof -
  have dl: "has_downloaded (asset_key_of sc asset_type) (status_file w)"
    using has_downloaded_load [OF assms(2)] assms(3) by simp
  from process_scene_frame [OF assms(1)] dl assms(4) obtain new where
    new: "trace w' = trace w @ new" "filter download_mark new = []"
      "\<forall>st. load_status w = Inr st
          \<longrightarrow> (\<exists>c rest. new = Request AssetsGet (assets_url_of sc) c # rest)"
    and fl: "files w' = files (snd (save_metadata sc output_dir w))"
    by auto
  from new(3) assms(2) obtain c rest where
    rest: "new = Request AssetsGet (assets_url_of sc) c # rest"
    by blast
  have a: "\<exists>c rest. trace w' = trace w @ Request AssetsGet (assets_url_of sc) c # rest
            \<and> filter download_mark rest = []"
    using new rest by auto
  have b: "files w' = (files w)(path_join (date_dir_of sc output_dir)
                                (scene_id sc @ ''_metadata.json'')
                              \<mapsto> Json_text (metadata_of sc))"
    using fl by (simp add: save_metadata_def Let_def)
  have c: "files w' (raw_tif_path_of sc asset_type output_dir)
           = files w (raw_tif_path_of sc asset_type output_dir)"
    using b sidecar_is_not_raw [of "date_dir_of sc output_dir" sc asset_type output_dir]
    by simp
  show ?thesis
    by (intro conjI a b c)
qed

theorem completed_item_skips_download_witness:
  "load_status done_world = Inr done_ledger
   \<and> downloaded_scenes done_ledger (asset_key_of s1 ''x'') \<noteq> None
   \<and> files done_world (raw_tif_path_of s1 ''x'' ''out'') \<noteq> None
   \<and> fst (process_scene s1 ''x'' ''out'' False done_world) = Inr True
   \<and> files (snd (process_scene s1 ''x'' ''out'' False done_world))
        (raw_tif_path_of s1 ''x'' ''out'') = Some (Bytes ''abcd'')"
proof -
  let ?run = "process_scene s1 ''x'' ''out'' False done_world"
  have r: "?run = (fst ?run, snd ?run)"
    by simp
  have h1: "load_status done_world = Inr done_ledger"
    by (simp add: load_status_def done_world_def)
  have h2: "downloaded_scenes done_ledger (asset_key_of s1 ''x'') \<noteq> None"
    by (simp add: scene_simps)
  have h3: "files done_world (raw_tif_path_of s1 ''x'' ''out'') \<noteq> None"
    by (simp add: scene_simps done_world_def)
  have ok: "fst ?run = Inr True"
    by (simp add: scene_simps run_simps done_world_def)
  have was: "files done_world (raw_tif_path_of s1 ''x'' ''out'') = Some (Bytes ''abcd'')"
    by (simp add: scene_simps done_world_def)
  show ?thesis
    using completed_item_skips_download [OF r h1 h2 h3, THEN conjunct2, THEN conjunct2]
      h1 h2 h3 ok was
    by simp
qed

section \<open>The retry ceiling\<close>

text \<open>
  C4. When every response has status 429, \<^verbatim>\<open>get_asset_activation_status\<close> and
  \<^verbatim>\<open>activate_asset\<close> each make exactly three requests, sleep 2, 4 and 8 seconds after
  the first, second and third of them, and then return \<^verbatim>\<open>None\<close> and \<^verbatim>\<open>False\<close>: no
  exception leaves them.
\<close>

theorem retry_ceiling_429:
  assumes "always_429 w"
  shows "fst (get_asset_activation_status url w) = None
       \<and> trace (snd (get_asset_activation_status url w)) =
           trace w @ [Request StatusGet url (Some 429), Sleep 2,
                      Request StatusGet url (Some 429), Sleep 4,
                      Request StatusGet url (Some 429), Sleep 8]
       \<and> served (snd (get_asset_activation_status url w)) = served w + 3
       \<and> fst (activate_asset url w) = False
       \<and> trace (snd (activate_asset url w)) =
           trace w @ [Log_activating url,
                      Request ActivatePost url (Some 429), Sleep 2,
                      Request ActivatePost url (Some 429), Sleep 4,
                      Request ActivatePost url (Some 429), Sleep 8]
       \<and> served (snd (activate_asset url w)) = served w + 3"
proof -
  obtain l0 r0 where a0: "net w (served w) = (l0, Reply r0)" "status_code r0 = 429"
    using assms unfolding always_429_def by blast
  obtain l1 r1 where a1: "net w (Suc (served w)) = (l1, Reply r1)" "status_code r1 = 429"
    using assms unfolding always_429_def by blast
  obtain l2 r2 where a2: "net w (Suc (Suc (served w))) = (l2, Reply r2)" "status_code r2 = 429"
    using assms unfolding always_429_def by blast
  show ?thesis
    using a0 a1 a2
    by (simp add: get_asset_activation_status_def activate_asset_def max_retries_def
        numeral_3_eq_3 request_def sleep_def log_def code_of_def)
qed

theorem retry_ceiling_429_witness:
  "always_429 (fresh_world (\<lambda>n. (1, json_reply 429 JNull)))
   \<and> fst (get_asset_activation_status ''u'' (fresh_world (\<lambda>n. (1, json_reply 429 JNull)))) = None
   \<and> clock (snd (get_asset_activation_status ''u''
               (fresh_world (\<lambda>n. (1, json_reply 429 JNull))))) = 17
   \<and> fst (activate_asset ''u'' (fresh_world (\<lambda>n. (1, json_reply 429 JNull)))) = False"
proof -
  have h: "always_429 (fresh_world (\<lambda>n. (1, json_reply 429 JNull)))"
    by (simp add: always_429_def fresh_world_def json_reply_def)
  show ?thesis
    using h retry_ceiling_429 [OF h, of "''u''"]
    by (simp add: get_asset_activation_status_def max_retries_def
        numeral_3_eq_3 request_def sleep_def fresh_world_def json_reply_def)
qed

section \<open>Saving the ledger\<close>

text \<open>
  C5 as stated does not hold: there is no temporary file and no rename. A crash after
  the first step of a save, on a ledger file that held a valid snapshot, leaves an empty
  file where that snapshot was, and \<^verbatim>\<open>load_status\<close> then raises.
\<close>

theorem save_status_not_atomic_counterexample:
  "status_file active_world = Snapshot requested_ledger
   \<and> status_file (save_status_interrupted 1 empty_ledger active_world) = Unparsable
   \<and> load_status (save_status_interrupted 1 empty_ledger active_world) = Inl JSONDecodeError
   \<and> files (save_status_interrupted 1 empty_ledger active_world) = files active_world"
  by (simp add: save_status_interrupted_def save_status_steps_def run_steps_def open_w_def
      load_status_def active_world_def fresh_world_def)

text \<open>
  C5, as amended. \<^verbatim>\<open>save_status\<close> overwrites \<^verbatim>\<open>planet_status.json\<close> in place: it
  truncates the file and then dumps the snapshot into it; no other file is written and
  nothing is renamed. Once it has completed the file holds exactly the snapshot given,
  whatever it held before; interrupted after the truncation, the file is one that
  \<^verbatim>\<open>load_status\<close> cannot parse.
\<close>

theorem save_status_in_place:
  "load_status (save_status st w) = Inr st
   \<and> files (save_status st w) = files w
   \<and> save_status_interrupted 0 st w = w
   \<and> load_status (save_status_interrupted 1 st w) = Inl JSONDecodeError
   \<and> files (save_status_interrupted 1 st w) = files w
   \<and> status_file (save_status_interrupted 2 st w) = Snapshot st
   \<and> save_status_interrupted 3 st w = save_status st w"
  by (simp add: save_status_def save_status_interrupted_def save_status_steps_def
      run_steps_def open_w_def json_dump_def load_status_def log_def numeral_2_eq_2
      numeral_3_eq_3)

section \<open>The download precondition\<close>

text \<open>
  C6. The program breaks this claim where the re-fetched status is a truthy body that
  is not a dict with a \<^verbatim>\<open>status\<close> member. For a status that is \<^verbatim>\<open>"activating"\<close>,
  \<^verbatim>\<open>download_asset\<close> returns \<^verbatim>\<open>False\<close> after the one status check, as the claim says.
  For a 200 body that has no \<^verbatim>\<open>status\<close>, and so is not active, the unguarded
  \<^verbatim>\<open>status["status"]\<close> raises a \<^verbatim>\<open>KeyError\<close> instead, and for a body that is a list a
  \<^verbatim>\<open>TypeError\<close>; in neither case is a download request made.
\<close>

theorem download_precondition_raises:
  "download_asset ''s'' ''p'' pending_world =
     (Inr False, snd (get_asset_activation_status ''s'' (log (Log_downloading ''p'') pending_world)))
   \<and> fst (download_asset ''s'' ''p'' no_status_world) = Inl KeyError
   \<and> trace (snd (download_asset ''s'' ''p'' no_status_world)) =
       [Log_downloading ''p'', Request StatusGet ''s'' (Some 200)]
   \<and> fst (download_asset ''s'' ''p'' list_status_world) = Inl TypeError
   \<and> trace (snd (download_asset ''s'' ''p'' list_status_world)) =
       [Log_downloading ''p'', Request StatusGet ''s'' (Some 200)]"
  by (simp add: download_asset_def run_simps pending_world_def no_status_world_def
      list_status_world_def)

section \<open>A self link without an asset key\<close>

text \<open>
  C7. For every self link with fewer than 8 slash-separated parts,
  \<^verbatim>\<open>wait_for_asset_activation\<close> leaves the ledger file as it was, whatever it returns,
  and it returns \<^verbatim>\<open>True\<close> as soon as a status check reports \<^verbatim>\<open>"active"\<close>: at the first
  poll, and at every later iteration of the polling loop that runs.
\<close>

theorem unparsable_self_link:
  assumes "length (str_split CHR ''/'' self_link) < 8"
  shows "status_file (snd (wait_for_asset_activation self_link w)) = status_file w
       \<and> (\<forall>j w2. get_asset_activation_status self_link (log Log_waiting w) = (Some j, w2)
              \<and> subscript j ''status'' = Inr (JStr ''active'')
            \<longrightarrow> wait_for_asset_activation self_link w = (Inr True, w2))
       \<and> (\<forall>start_time w1 j w2. clock w1 - start_time < timeout
              \<and> get_asset_activation_status self_link w1 = (Some j, w2)
              \<and> subscript j ''status'' = Inr (JStr ''active'')
            \<longrightarrow> wait_for_asset_activation_loop self_link (derived_key self_link) start_time w1
                  = (Inr True, w2))"
proof -
  have key: "derived_key self_link = None"
    using assms by (simp add: derived_key_def Let_def)
  have unchanged: "status_file (snd (wait_for_asset_activation self_link w)) = status_file w"
    using wait_frame [of self_link w "fst (wait_for_asset_activation self_link w)"
        "snd (wait_for_asset_activation self_link w)"] key
    by (simp add: recorded_def)
  have loop: "wait_for_asset_activation_loop self_link (derived_key self_link) start_time w1
                  = (Inr True, w2)"
    if "clock w1 - start_time < timeout"
      "get_asset_activation_status self_link w1 = (Some j, w2)"
      "subscript j ''status'' = Inr (JStr ''active'')"
    for start_time w1 j w2
    using that key subscript_truthy [OF that(3)]
    by (simp add: record_active_def)
  have first: "wait_for_asset_activation self_link w = (Inr True, w2)"
    if "get_asset_activation_status self_link (log Log_waiting w) = (Some j, w2)"
      "subscript j ''status'' = Inr (JStr ''active'')"
    for j w2
    using loop [of "log Log_waiting w" "clock w" j w2] that
    by (simp add: wait_for_asset_activation_def Let_def timeout_def
        del: wait_for_asset_activation_loop.simps)
  show ?thesis
    using unchanged loop first by blast
qed

theorem unparsable_self_link_witness:
  "length (str_split CHR ''/'' ''https://api.planet.com/data/v1/assets/abc'') < 8
   \<and> fst (wait_for_asset_activation ''https://api.planet.com/data/v1/assets/abc'' active_world)
       = Inr True
   \<and> status_file (snd (wait_for_asset_activation ''https://api.planet.com/data/v1/assets/abc''
                         active_world)) = Snapshot requested_ledger"
proof -
  have h: "length (str_split CHR ''/'' ''https://api.planet.com/data/v1/assets/abc'') < 8"
    by simp
  have ok: "fst (wait_for_asset_activation ''https://api.planet.com/data/v1/assets/abc''
              active_world) = Inr True"
    by (simp add: run_simps active_world_def active_status_def)
  show ?thesis
    using h ok unparsable_self_link [OF h, of active_world, THEN conjunct1]
    by (simp add: active_world_def fresh_world_def)
qed

section \<open>When the download flag is set\<close>

text \<open>
  C8 as stated does not hold, in two ways. The download is written to the destination
  path itself, with no temporary path and no rename: when the stream breaks after the
  first chunk and the retries fail, \<^verbatim>\<open>process_scene\<close> returns \<^verbatim>\<open>False\<close> and the
  destination path holds the partial download. And the flag does not wait for the
  activation state in the ledger: in a run that goes through with a self link from which
  no key is derived, the flag is set while the entry on file is still \<^verbatim>\<open>"activating"\<close>.
\<close>

theorem partial_download_counterexample:
  "files broken_world (raw_tif_path_of s1 ''x'' ''out'') = None
   \<and> fst (process_scene s1 ''x'' ''out'' False broken_world) = Inr False
   \<and> files (snd (process_scene s1 ''x'' ''out'' False broken_world))
        (raw_tif_path_of s1 ''x'' ''out'') = Some (Bytes ''ab'')
   \<and> \<not> has_downloaded ''S1_x''
         (status_file (snd (process_scene s1 ''x'' ''out'' False broken_world)))
   \<and> fst (process_scene s1 ''x'' ''out'' False good_world) = Inr True
   \<and> has_downloaded ''S1_x''
         (status_file (snd (process_scene s1 ''x'' ''out'' False good_world)))
   \<and> activation_on_file ''S1_x'' (snd (process_scene s1 ''x'' ''out'' False good_world))
       = Some ''activating''"
  by (simp add: scene_simps run_simps broken_world_def good_world_def)

text \<open>
  C8, as amended. The download flag of a key becomes set in the ledger file during a run
  of \<^verbatim>\<open>process_scene\<close> only if that run returns \<^verbatim>\<open>True\<close>, the provider answered a status
  check of the run with the status \<^verbatim>\<open>"active"\<close> and a download location, and the
  destination path holds the whole body of a 200 response to a download request of the
  run to that location, whose stream ended without breaking.
\<close>

theorem download_flag_after_delivery:
  assumes "process_scene sc asset_type output_dir ao w = (r, w')"
    and "\<not> has_downloaded (asset_key_of sc asset_type) (status_file w)"
    and "has_downloaded (asset_key_of sc asset_type) (status_file w')"
  shows "r = Inr True
       \<and> (\<exists>url. reported_active w w' url
              \<and> delivered w w' url (raw_tif_path_of sc asset_type output_dir))"
  using process_scene_frame [OF assms(1)] assms(2,3) by blast

theorem download_flag_after_delivery_witness:
  "\<not> has_downloaded (asset_key_of s1 ''x'') (status_file good_world)
   \<and> has_downloaded (asset_key_of s1 ''x'')
       (status_file (snd (process_scene s1 ''x'' ''out'' False good_world)))
   \<and> fst (process_scene s1 ''x'' ''out'' False good_world) = Inr True
   \<and> files (snd (process_scene s1 ''x'' ''out'' False good_world))
        (raw_tif_path_of s1 ''x'' ''out'') = Some (Bytes ''abcd'')
   \<and> (\<exists>url. reported_active good_world
                (snd (process_scene s1 ''x'' ''out'' False good_world)) url
          \<and> delivered good_world (snd (process_scene s1 ''x'' ''out'' False good_world)) url
                (raw_tif_path_of s1 ''x'' ''out''))"
proof -
  let ?run = "process_scene s1 ''x'' ''out'' False good_world"
  have r: "?run = (fst ?run, snd ?run)"
    by simp
  have h1: "\<not> has_downloaded (asset_key_of s1 ''x'') (status_file good_world)"
    by (simp add: has_downloaded_def good_world_def fresh_world_def)
  have h2: "has_downloaded (asset_key_of s1 ''x'') (status_file (snd ?run))"
    by (simp add: scene_simps run_simps good_world_def)
  have fl: "files (snd ?run) (raw_tif_path_of s1 ''x'' ''out'') = Some (Bytes ''abcd'')"
    by (simp add: scene_simps run_simps good_world_def)
  show ?thesis
    using download_flag_after_delivery [OF r h1 h2] h1 h2 fl by simp
qed

section \<open>The batch and its tally\<close>

text \<open>
  C9. The program breaks this claim: \<^verbatim>\<open>main\<close> catches nothing. When a status check is
  answered 200 with a JSON body that has no \<^verbatim>\<open>status\<close>, the \<^verbatim>\<open>KeyError\<close> raised in
  \<^verbatim>\<open>wait_for_asset_activation\<close> leaves \<^verbatim>\<open>main\<close>: the second work item of the batch is
  never started and no count is reported. A transport fault on the assets listing, the
  one request \<^verbatim>\<open>process_scene\<close> makes outside a retry loop, ends the batch the same way.
\<close>

theorem batch_ends_with_exception:
  "fst (main malformed_args malformed_world) = Inl KeyError
   \<and> filter processing_mark (trace (snd (main malformed_args malformed_world))) =
       [Log_processing (JStr ''S1'') ''x'']
   \<and> filter tally_mark (trace (snd (main malformed_args malformed_world))) = []
   \<and> fst (main malformed_args listing_fault_world) = Inl RequestException
   \<and> filter processing_mark (trace (snd (main malformed_args listing_fault_world))) =
       [Log_processing (JStr ''S1'') ''x'']
   \<and> filter tally_mark (trace (snd (main malformed_args listing_fault_world))) = []"
  by (simp add: batch_simps scene_simps run_simps malformed_args_def malformed_world_def
      listing_fault_world_def)

section \<open>Polling updates only entries that exist\<close>

text \<open>
  C10. \<^verbatim>\<open>wait_for_asset_activation\<close> changes the ledger file only by a successful
  poll, and then only the entry of the derived key, which it sets to \<^verbatim>\<open>"active"\<close> when
  the key is already in \<^verbatim>\<open>activated_scenes\<close>. It inserts no key, changes no other entry,
  leaves \<^verbatim>\<open>downloaded_scenes\<close> and the other files alone, and leaves the file as it was
  when the key was never recorded.
\<close>

theorem poll_updates_existing_only:
  assumes "wait_for_asset_activation self_link w = (r, w')"
  shows "(\<forall>k st. r = Inr True \<and> derived_key self_link = Some k \<and> status_file w = Snapshot st
              \<and> activated_scenes st k \<noteq> None
            \<longrightarrow> status_file w' =
                  Snapshot (st\<lparr>activated_scenes := (activated_scenes st)(k \<mapsto> ''active'')\<rparr>))
       \<and> ((\<forall>k st. derived_key self_link = Some k \<and> status_file w = Snapshot st
              \<longrightarrow> activated_scenes st k = None)
            \<longrightarrow> status_file w' = status_file w)
       \<and> (\<forall>st. status_file w = Snapshot st
            \<longrightarrow> (\<exists>st'. status_file w' = Snapshot st'
                   \<and> dom (activated_scenes st') = dom (activated_scenes st)
                   \<and> downloaded_scenes st' = downloaded_scenes st
                   \<and> (\<forall>k'. derived_key self_link \<noteq> Some k'
                         \<longrightarrow> activated_scenes st' k' = activated_scenes st k')))
       \<and> (r \<noteq> Inr True \<longrightarrow> status_file w' = status_file w)
       \<and> files w' = files w"
proof -
  note f = wait_frame [OF assms]
  have a: "\<forall>k st. r = Inr True \<and> derived_key self_link = Some k \<and> status_file w = Snapshot st
              \<and> activated_scenes st k \<noteq> None
            \<longrightarrow> status_file w' =
                  Snapshot (st\<lparr>activated_scenes := (activated_scenes st)(k \<mapsto> ''active'')\<rparr>)"
    using f by (simp add: recorded_def)
  have b: "(\<forall>k st. derived_key self_link = Some k \<and> status_file w = Snapshot st
              \<longrightarrow> activated_scenes st k = None)
            \<longrightarrow> status_file w' = status_file w"
    using f by (auto simp: recorded_def split: option.splits ledger_file.splits)
  have c: "\<forall>st. status_file w = Snapshot st
            \<longrightarrow> (\<exists>st'. status_file w' = Snapshot st'
                   \<and> dom (activated_scenes st') = dom (activated_scenes st)
                   \<and> downloaded_scenes st' = downloaded_scenes st
                   \<and> (\<forall>k'. derived_key self_link \<noteq> Some k'
                         \<longrightarrow> activated_scenes st' k' = activated_scenes st k'))"
    using f by (auto simp: recorded_def split: option.splits)
  have d: "r \<noteq> Inr True \<longrightarrow> status_file w' = status_file w"
    using f by simp
  have e: "files w' = files w"
    using f by simp
  show ?thesis
    by (intro conjI a b c d e)
qed

theorem poll_updates_existing_only_witness:
  "fst (wait_for_asset_activation ''https://api.example/a/b/S1/c/d/x'' active_world) = Inr True
   \<and> derived_key ''https://api.example/a/b/S1/c/d/x'' = Some ''S1_x''
   \<and> status_file active_world = Snapshot requested_ledger
   \<and> activated_scenes requested_ledger ''S1_x'' \<noteq> None
   \<and> status_file (snd (wait_for_asset_activation ''https://api.example/a/b/S1/c/d/x''
                         active_world)) =
       Snapshot (requested_ledger\<lparr>activated_scenes :=
                   (activated_scenes requested_ledger)(''S1_x'' \<mapsto> ''active'')\<rparr>)"
proof -
  have run: "wait_for_asset_activation ''https://api.example/a/b/S1/c/d/x'' active_world =
     (fst (wait_for_asset_activation ''https://api.example/a/b/S1/c/d/x'' active_world),
      snd (wait_for_asset_activation ''https://api.example/a/b/S1/c/d/x'' active_world))"
    by simp
  have ok: "fst (wait_for_asset_activation ''https://api.example/a/b/S1/c/d/x'' active_world)
      = Inr True"
    by (simp add: run_simps active_world_def active_status_def requested_ledger_def)
  have key: "derived_key ''https://api.example/a/b/S1/c/d/x'' = Some ''S1_x''"
    by (simp add: derived_key_def)
  have on_file: "status_file active_world = Snapshot requested_ledger"
    by (simp add: active_world_def fresh_world_def)
  have present: "activated_scenes requested_ledger ''S1_x'' \<noteq> None"
    by (simp add: requested_ledger_def)
  show ?thesis
    using poll_updates_existing_only [OF run, THEN conjunct1] ok key on_file present
    by blast
qed

end
